theory Spec2Isabelle
  imports Complex_Main "HOL-Library.Word" "HOL-Library.AList"
begin

unbundle bit_operations_syntax

section \<open>Security helper: timingSafeEqual\<close>

text \<open>
  A JavaScript string is a sequence of 16-bit code units; \<open>charCodeAt\<close> reads one of
  them, and the operators \<open>^\<close> and \<open>|=\<close> work on 32-bit integers.  The loop of
  \<open>timingSafeEqual\<close> runs over the index \<open>i\<close> with the accumulator \<open>mismatch\<close>.
\<close>

type_synonym code_units = "16 word list"

function timingSafeEqual_loop :: "code_units \<Rightarrow> code_units \<Rightarrow> nat \<Rightarrow> 32 word \<Rightarrow> 32 word" where
  "timingSafeEqual_loop a b i mismatch =
     (if i < length a
      then timingSafeEqual_loop a b (i + 1) (mismatch OR (ucast (a ! i) XOR ucast (b ! i)))
      else mismatch)"
  by pat_completeness auto
termination
  by (relation "measure (\<lambda>(a, b, i, mismatch). length a - i)") auto

definition timingSafeEqual :: "code_units \<Rightarrow> code_units \<Rightarrow> bool" where
  "timingSafeEqual a b =
     (if length a \<noteq> length b then False
      else timingSafeEqual_loop a b 0 0 = 0)"

text \<open>
  Everywhere else text is a \<open>string\<close>: a list of characters with codes below 256
  (the Latin-1 range of code units).  \<open>charCodes\<close> gives the code units of such a text.
\<close>

definition charCodes :: "string \<Rightarrow> code_units" where
  "charCodes s = map (\<lambda>c. of_nat (of_char c)) s"

section \<open>Strings\<close>

definition code :: "char \<Rightarrow> nat" where
  "code c = of_char c"

text \<open>White space and line terminators, as \<open>trim\<close> and the class \<open>\s\<close> see them.\<close>

definition isSpace :: "char \<Rightarrow> bool" where
  "isSpace c = (code c = 9 \<or> code c = 10 \<or> code c = 11 \<or> code c = 12 \<or> code c = 13
                \<or> code c = 32 \<or> code c = 160)"

definition isDigit :: "char \<Rightarrow> bool" where
  "isDigit c = (48 \<le> code c \<and> code c \<le> 57)"

definition lowerChar :: "char \<Rightarrow> char" where
  "lowerChar c =
     (if (65 \<le> code c \<and> code c \<le> 90) \<or> (192 \<le> code c \<and> code c \<le> 222 \<and> code c \<noteq> 215)
      then char_of (code c + 32) else c)"

definition toLowerCase :: "string \<Rightarrow> string" where
  "toLowerCase s = map lowerChar s"

definition trim :: "string \<Rightarrow> string" where
  "trim s = rev (dropWhile isSpace (rev (dropWhile isSpace s)))"

fun startsWith :: "string \<Rightarrow> string \<Rightarrow> bool" where
  "startsWith s [] = True"
| "startsWith [] (p # ps) = False"
| "startsWith (c # cs) (p # ps) = (c = p \<and> startsWith cs ps)"

definition endsWith :: "string \<Rightarrow> string \<Rightarrow> bool" where
  "endsWith s p = startsWith (rev s) (rev p)"

fun includes_str :: "string \<Rightarrow> string \<Rightarrow> bool" where
  "includes_str [] p = (p = [])"
| "includes_str (c # cs) p = (startsWith (c # cs) p \<or> includes_str cs p)"

text \<open>Array.prototype.slice with a negative start: the last \<open>n\<close> elements.\<close>

definition slice_last :: "nat \<Rightarrow> 'a list \<Rightarrow> 'a list" where
  "slice_last n xs = drop (length xs - n) xs"

text \<open>Decimal rendering of a non-negative integer, and \<open>parseInt\<close> on a run of digits.\<close>

definition digitChar :: "nat \<Rightarrow> char" where
  "digitChar d = char_of (48 + d)"

function showNat :: "nat \<Rightarrow> string" where
  "showNat n = (if n < 10 then [digitChar n] else showNat (n div 10) @ [digitChar (n mod 10)])"
  by pat_completeness auto
termination
  by (relation "measure id") auto

definition parseInt :: "string \<Rightarrow> nat" where
  "parseInt ds = foldl (\<lambda>n c. 10 * n + (code c - 48)) 0 ds"

section \<open>Regular expressions\<close>

text \<open>
  The expressions of the source use literals, classes, alternatives, optional parts,
  capture groups, the end anchor, and repetition of a single class (greedy or lazy).
  \<open>rx_run\<close> lists the ways an expression matches a prefix of the text, in the order
  in which a backtracking matcher tries them: each result is the text left over with
  the captures made.  The flag says whether letters match without regard to case.
\<close>

datatype rx =
    Chr char
  | Cls "char \<Rightarrow> bool"
  | Str string
  | Seq rx rx
  | Alt rx rx
  | Opt rx
  | Rep "char \<Rightarrow> bool" nat "nat option"
  | RepLazy "char \<Rightarrow> bool" nat
  | Grp nat rx
  | Eos

type_synonym captures = "(nat \<times> string) list"

definition sameChar :: "bool \<Rightarrow> char \<Rightarrow> char \<Rightarrow> bool" where
  "sameChar ic p c = (if ic then lowerChar p = lowerChar c else p = c)"

fun matchStr :: "bool \<Rightarrow> string \<Rightarrow> string \<Rightarrow> string option" where
  "matchStr ic [] s = Some s"
| "matchStr ic (p # ps) [] = None"
| "matchStr ic (p # ps) (c # cs) = (if sameChar ic p c then matchStr ic ps cs else None)"

definition runLength :: "(char \<Rightarrow> bool) \<Rightarrow> nat option \<Rightarrow> string \<Rightarrow> nat" where
  "runLength P hi s =
     (case hi of None \<Rightarrow> length (takeWhile P s)
               | Some h \<Rightarrow> min h (length (takeWhile P s)))"

fun rx_run :: "bool \<Rightarrow> rx \<Rightarrow> string \<times> captures \<Rightarrow> (string \<times> captures) list" where
  "rx_run ic (Chr p) (s, c) =
     (case s of [] \<Rightarrow> [] | x # xs \<Rightarrow> if sameChar ic p x then [(xs, c)] else [])"
| "rx_run ic (Cls P) (s, c) =
     (case s of [] \<Rightarrow> [] | x # xs \<Rightarrow> if P x then [(xs, c)] else [])"
| "rx_run ic (Str ps) (s, c) =
     (case matchStr ic ps s of None \<Rightarrow> [] | Some r \<Rightarrow> [(r, c)])"
| "rx_run ic (Seq a b) x = concat (map (rx_run ic b) (rx_run ic a x))"
| "rx_run ic (Alt a b) x = rx_run ic a x @ rx_run ic b x"
| "rx_run ic (Opt a) x = rx_run ic a x @ [x]"
| "rx_run ic (Rep P lo hi) (s, c) =
     map (\<lambda>k. (drop k s, c)) (rev [lo ..< Suc (runLength P hi s)])"
| "rx_run ic (RepLazy P lo) (s, c) =
     map (\<lambda>k. (drop k s, c)) [lo ..< Suc (runLength P None s)]"
| "rx_run ic (Grp i a) (s, c) =
     map (\<lambda>(r, c'). (r, (i, take (length s - length r) s) # c')) (rx_run ic a (s, c))"
| "rx_run ic Eos (s, c) = (if s = [] then [(s, c)] else [])"

text \<open>
  A match found by searching: where it starts, how long it is, and its captures.
  \<open>rx_at\<close> tries one position (an expression anchored with \<open>^\<close>), \<open>rx_exec\<close>
  goes through the positions from the left.
\<close>

record rmatch =
  m_index :: nat
  m_length :: nat
  m_caps :: captures

definition rx_at :: "bool \<Rightarrow> rx \<Rightarrow> string \<Rightarrow> nat \<Rightarrow> rmatch option" where
  "rx_at ic r s i =
     (case rx_run ic r (drop i s, []) of
        [] \<Rightarrow> None
      | (rest, c) # _ \<Rightarrow> Some \<lparr>m_index = i, m_length = length s - i - length rest, m_caps = c\<rparr>)"

fun rx_scan :: "bool \<Rightarrow> rx \<Rightarrow> string \<Rightarrow> nat \<Rightarrow> nat \<Rightarrow> rmatch option" where
  "rx_scan ic r s i 0 = rx_at ic r s i"
| "rx_scan ic r s i (Suc n) =
     (case rx_at ic r s i of Some m \<Rightarrow> Some m | None \<Rightarrow> rx_scan ic r s (Suc i) n)"

definition rx_exec :: "bool \<Rightarrow> rx \<Rightarrow> string \<Rightarrow> rmatch option" where
  "rx_exec ic r s = rx_scan ic r s 0 (length s)"

definition rx_test :: "bool \<Rightarrow> rx \<Rightarrow> string \<Rightarrow> bool" where
  "rx_test ic r s = (rx_exec ic r s \<noteq> None)"

definition rx_test_anchored :: "bool \<Rightarrow> rx \<Rightarrow> string \<Rightarrow> bool" where
  "rx_test_anchored ic r s = (rx_at ic r s 0 \<noteq> None)"

definition group :: "rmatch \<Rightarrow> nat \<Rightarrow> string option" where
  "group m i = map_of (m_caps m) i"

definition matched :: "string \<Rightarrow> rmatch \<Rightarrow> string" where
  "matched s m = take (m_length m) (drop (m_index m) s)"

text \<open>\<open>s.replace(r, "")\<close> for an expression without the global flag.\<close>

definition remove_first :: "bool \<Rightarrow> rx \<Rightarrow> string \<Rightarrow> string" where
  "remove_first ic r s =
     (case rx_exec ic r s of
        None \<Rightarrow> s
      | Some m \<Rightarrow> take (m_index m) s @ drop (m_index m + m_length m) s)"

text \<open>
  With the global flag every match is removed, the search resuming where the last
  match ended (one character further after an empty match).
\<close>

function remove_all :: "bool \<Rightarrow> rx \<Rightarrow> string \<Rightarrow> string" where
  "remove_all ic r s =
     (case rx_exec ic r s of
        None \<Rightarrow> s
      | Some m \<Rightarrow>
          if m_length m = 0
          then (case drop (m_index m) s of
                  [] \<Rightarrow> s
                | x # xs \<Rightarrow> take (Suc (m_index m)) s @ remove_all ic r xs)
          else (if s = [] then s
                else take (m_index m) s
                     @ remove_all ic r (drop (m_index m + m_length m) s)))"
  by pat_completeness auto
termination
proof (relation "measure (\<lambda>(ic, r, s). length s)", goal_cases)
  case 1
  show ?case by simp
next
  case (2 ic r s m x xs)
  then have "length (drop (m_index m) s) = Suc (length xs)" by simp
  then show ?case by simp
next
  case (3 ic r s m)
  then show ?case by simp
qed

declare timingSafeEqual_loop.simps [simp del]
declare showNat.simps [simp del]
declare remove_all.simps [simp del]

section \<open>JSON values\<close>

text \<open>
  What \<open>JSON.parse\<close> returns is untyped, and the directives read from the model's
  text are used as parsed.  \<open>JUndefined\<close> is the value of a missing property.
\<close>

datatype json =
    JUndefined
  | JNull
  | JBool bool
  | JNum rat
  | JStr string
  | JArr "json list"
  | JObj "(string \<times> json) list"

datatype error =
    TypeError string
  | SyntaxError string
  | ApiError string

definition message_of :: "error \<Rightarrow> string" where
  "message_of e = (case e of TypeError m \<Rightarrow> m | SyntaxError m \<Rightarrow> m | ApiError m \<Rightarrow> m)"

definition truthy :: "json \<Rightarrow> bool" where
  "truthy v =
     (case v of
        JUndefined \<Rightarrow> False
      | JNull \<Rightarrow> False
      | JBool b \<Rightarrow> b
      | JNum r \<Rightarrow> r \<noteq> 0
      | JStr s \<Rightarrow> s \<noteq> []
      | JArr xs \<Rightarrow> True
      | JObj kv \<Rightarrow> True)"

definition nullish :: "json \<Rightarrow> bool" where
  "nullish v = (v = JUndefined \<or> v = JNull)"

text \<open>
  Reading a property: of \<open>undefined\<close> or \<open>null\<close> it throws; of an object it gives the
  member or \<open>undefined\<close>; no other value has one of the properties read in this program
  (\<open>tool\<close>, \<open>args\<close>, \<open>message\<close>, \<open>when\<close>, \<open>description\<close>, \<open>key\<close>, \<open>value\<close>, \<open>to\<close>).
\<close>

definition json_member :: "json \<Rightarrow> string \<Rightarrow> json" where
  "json_member v k =
     (case v of
        JObj kv \<Rightarrow> (case map_of kv k of None \<Rightarrow> JUndefined | Some x \<Rightarrow> x)
      | _ \<Rightarrow> JUndefined)"

definition read_prop :: "json \<Rightarrow> string \<Rightarrow> error + json" where
  "read_prop v k =
     (if nullish v then Inl (TypeError ''Cannot read properties of undefined or null'')
      else Inr (json_member v k))"

text \<open>Optional chaining \<open>v?.k\<close>.\<close>

definition opt_prop :: "json \<Rightarrow> string \<Rightarrow> json" where
  "opt_prop v k = (if nullish v then JUndefined else json_member v k)"

fun join_with :: "string \<Rightarrow> string list \<Rightarrow> string" where
  "join_with sep [] = []"
| "join_with sep [x] = x"
| "join_with sep (x # y # ys) = x @ sep @ join_with sep (y # ys)"

text \<open>
  Conversion to a string, as a template literal or a computed property key does it.
  The rendering of a number is the platform's and is a parameter.
\<close>

fun to_string :: "(rat \<Rightarrow> string) \<Rightarrow> json \<Rightarrow> string" where
  "to_string num JUndefined = ''undefined''"
| "to_string num JNull = ''null''"
| "to_string num (JBool b) = (if b then ''true'' else ''false'')"
| "to_string num (JNum r) = num r"
| "to_string num (JStr s) = s"
| "to_string num (JArr xs) =
     join_with '','' (map (\<lambda>x. if x = JUndefined \<or> x = JNull then [] else to_string num x) xs)"
| "to_string num (JObj kv) = ''[object Object]''"

text \<open>Strict equality \<open>===\<close>: by value on primitives, never true of two parsed objects.\<close>

definition strict_eq :: "json \<Rightarrow> json \<Rightarrow> bool" where
  "strict_eq a b =
     (case a of
        JArr xs \<Rightarrow> False
      | JObj kv \<Rightarrow> False
      | _ \<Rightarrow> a = b)"

section \<open>Temporal expression parser\<close>

text \<open>
  A \<open>Date\<close> holds a time value in milliseconds, at most 8.64e15 in magnitude, or is
  invalid.  Times are integers: every number computed here is below 2^53 whenever the
  date is valid, so the arithmetic of the source is exact.
\<close>

datatype date = Instant int | InvalidDate

definition newDate :: "int \<Rightarrow> date" where
  "newDate t = (if \<bar>t\<bar> \<le> 8640000000000000 then Instant t else InvalidDate)"

datatype when_value = WhenCron string | WhenDate date

definition anyChar :: "char \<Rightarrow> bool" where
  "anyChar c = True"

definition cronChar :: "char \<Rightarrow> bool" where
  "cronChar c = (isDigit c \<or> c = CHR ''*'' \<or> c = CHR ''/'' \<or> c = CHR ''-'' \<or> c = CHR '','')"

definition seqs :: "rx list \<Rightarrow> rx" where
  "seqs rs = foldr Seq rs (Str [])"

definition alts :: "rx \<Rightarrow> rx list \<Rightarrow> rx" where
  "alts r rs = foldl Alt r rs"

definition cron_rx :: rx where
  "cron_rx = seqs [Rep cronChar 1 None, Rep isSpace 1 None,
                   Rep cronChar 1 None, Rep isSpace 1 None,
                   Rep cronChar 1 None, Rep isSpace 1 None,
                   Rep cronChar 1 None, Rep isSpace 1 None,
                   Rep cronChar 1 None, Eos]"

definition at_time_rx :: "string \<Rightarrow> rx" where
  "at_time_rx what =
     seqs [Str ''every'', Rep isSpace 0 None, Str what, Rep isSpace 0 None,
           Opt (Seq (Str ''at'') (Rep isSpace 0 None)),
           Grp 1 (Rep isDigit 1 (Some 2)),
           Opt (Seq (Chr CHR '':'') (Grp 2 (Rep isDigit 2 (Some 2)))),
           Rep isSpace 0 None,
           Opt (Grp 3 (Alt (Str ''am'') (Str ''pm'')))]"

definition daily_rx :: rx where
  "daily_rx = at_time_rx ''day''"

definition weekday_rx :: rx where
  "weekday_rx = at_time_rx ''weekday''"

definition every_rx :: "string \<Rightarrow> rx" where
  "every_rx what = seqs [Str ''every'', Rep isSpace 0 None, Str what]"

definition every_hours_rx :: rx where
  "every_hours_rx =
     seqs [Str ''every'', Rep isSpace 0 None, Grp 1 (Rep isDigit 1 None), Rep isSpace 0 None,
           Str ''hour'', Opt (Chr CHR ''s'')]"

definition unit_rx :: rx where
  "unit_rx = Grp 2 (alts (Str ''second'') [Str ''minute'', Str ''hour'', Str ''day''])"

definition relative_rx :: rx where
  "relative_rx =
     seqs [Str ''in'', Rep isSpace 1 None, Grp 1 (Rep isDigit 1 None), Rep isSpace 0 None,
           unit_rx, Opt (Chr CHR ''s'')]"

definition mult :: "(string \<times> int) list" where
  "mult = [(''second'', 1000), (''minute'', 60000), (''hour'', 3600000), (''day'', 86400000)]"

text \<open>
  The hour and minute of a match: \<open>parseInt\<close> of the groups, the hour moved by the
  am/pm mark; \<open>fix12am\<close> says whether the branch also turns 12am into 0.
\<close>

definition hour_of :: "bool \<Rightarrow> rmatch \<Rightarrow> nat option" where
  "hour_of fix12am m =
     (case group m 1 of
        None \<Rightarrow> None
      | Some h \<Rightarrow>
          (let hour = parseInt h;
               mark = map_option toLowerCase (group m 3);
               hour1 = (if mark = Some ''pm'' \<and> hour < 12 then hour + 12 else hour);
               hour2 = (if fix12am \<and> mark = Some ''am'' \<and> hour1 = 12 then 0 else hour1)
           in Some hour2))"

definition minute_of :: "rmatch \<Rightarrow> nat" where
  "minute_of m =
     (case group m 2 of None \<Rightarrow> 0 | Some mm \<Rightarrow> if mm = [] then 0 else parseInt mm)"

definition showNum :: "nat option \<Rightarrow> string" where
  "showNum n = (case n of None \<Rightarrow> ''NaN'' | Some k \<Rightarrow> showNat k)"

text \<open>
  \<open>parseWhen\<close>, with the clock reading \<open>now\<close> of its first line as an argument and the
  platform's parsing of a date string (\<open>None\<close> for an invalid date) as a parameter.
\<close>

definition parseWhen :: "(string \<Rightarrow> int option) \<Rightarrow> int \<Rightarrow> string \<Rightarrow> when_value" where
  "parseWhen date_parse now when =
     (if rx_test_anchored False cron_rx (trim when) then WhenCron (trim when)
      else case rx_exec True daily_rx when of
        Some m \<Rightarrow>
          WhenCron (showNat (minute_of m) @ '' '' @ showNum (hour_of True m) @ '' * * *'')
      | None \<Rightarrow>
          if rx_test True (every_rx ''hour'') when then WhenCron ''0 * * * *''
          else if rx_test True (every_rx ''morning'') when then WhenCron ''0 7 * * *''
          else if rx_test True (every_rx ''evening'') when then WhenCron ''0 18 * * *''
          else case rx_exec True every_hours_rx when of
            Some m \<Rightarrow>
              WhenCron (''0 */'' @ (case group m 1 of None \<Rightarrow> ''undefined'' | Some n \<Rightarrow> n)
                        @ '' * * *'')
          | None \<Rightarrow>
              (case rx_exec True weekday_rx when of
                 Some m \<Rightarrow>
                   WhenCron (showNat (minute_of m) @ '' '' @ showNum (hour_of False m)
                             @ '' * * 1-5'')
               | None \<Rightarrow>
                   (case rx_exec True relative_rx when of
                      Some m \<Rightarrow>
                        (case (group m 1, group m 2) of
                           (Some n, Some u) \<Rightarrow>
                             (case map_of mult (toLowerCase u) of
                                Some k \<Rightarrow> WhenDate (newDate (now + int (parseInt n) * k))
                              | None \<Rightarrow> WhenDate InvalidDate)
                         | _ \<Rightarrow> WhenDate InvalidDate)
                    | None \<Rightarrow>
                        (case date_parse when of
                           None \<Rightarrow> WhenDate (newDate (now + 60000))
                         | Some t \<Rightarrow> WhenDate (newDate t)))))"

text \<open>The tests of \<open>parseWhen\<close>, taken together: the text has one of the forms.\<close>

definition recognized :: "string \<Rightarrow> bool" where
  "recognized w =
     (rx_test_anchored False cron_rx (trim w)
      \<or> rx_exec True daily_rx w \<noteq> None
      \<or> rx_test True (every_rx ''hour'') w
      \<or> rx_test True (every_rx ''morning'') w
      \<or> rx_test True (every_rx ''evening'') w
      \<or> rx_exec True every_hours_rx w \<noteq> None
      \<or> rx_exec True weekday_rx w \<noteq> None
      \<or> rx_exec True relative_rx w \<noteq> None)"

section \<open>Session state\<close>

datatype role = User | Assistant

record Message =
  role :: role
  content :: string

record Tool =
  name :: string
  description :: string
  inputSchema :: json

record PendingAction =
  pa_tool :: string
  pa_args :: "(string \<times> json) list"
  pa_context :: string
  originalRequest :: string

record RateLimit =
  count :: int
  resetAt :: int

datatype schedule_type = OneTime | Recurring

text \<open>
  The fields of a schedule come unchecked from a parsed directive, so \<open>tool\<close>, \<open>args\<close>
  and \<open>description\<close> are JSON values.
\<close>

record ScheduleRecord =
  sr_id :: string
  sr_when :: string
  sr_tool :: json
  sr_args :: json
  sr_description :: json
  createdAt :: int
  sr_type :: schedule_type

record ScheduledAction =
  sa_tool :: json
  sa_args :: json
  sa_description :: json

record SystemState =
  history :: "Message list"
  preferences :: "(string \<times> json) list"
  lastActive :: int
  pendingAction :: "PendingAction option"
  rateLimit :: "RateLimit option"
  scheduleRegistry :: "ScheduleRecord list"

definition initialState :: "int \<Rightarrow> SystemState" where
  "initialState t0 =
     \<lparr>history = [], preferences = [], lastActive = t0, pendingAction = None,
      rateLimit = None, scheduleRegistry = []\<rparr>"

definition RATE_LIMIT :: int where
  "RATE_LIMIT = 60"

definition RATE_WINDOW :: int where
  "RATE_WINDOW = 60 * 1000"

section \<open>Results and messages\<close>

record bridge_result =
  success :: bool
  result :: "string option"
  error :: "string option"
  image :: "(string \<times> string) option"

record action_result =
  ar_tool :: json
  ar_args :: json
  ar_result :: "string option"
  ar_success :: bool
  ar_image :: "(string \<times> string) option"

record scheduled_task =
  task_id :: string
  task_when :: json
  task_description :: json

record chat_result =
  cr_message :: string
  cr_action :: "action_result option"
  cr_actions :: "action_result list option"
  cr_scheduled :: "scheduled_task option"

datatype ws_type = Notification | Scheduled_result | Bridge_status | Chat | Ping

datatype ws_payload =
    Notice string string
  | Pong
  | ChatPayload chat_result
  | ScheduledPayload ScheduledAction "string option" bool "(string \<times> string) option"

record WSMessage =
  ws_type :: ws_type
  payload :: ws_payload
  timestamp :: string

section \<open>The outside world\<close>

text \<open>
  Every call that leaves the agent is a function of the world \<open>'w\<close>, which it may change:
  the clock, the three HTTP services (tool catalog, completion, execution), the
  scheduler of the platform and the sockets of the listeners.  The outcome of a call
  says how it ended, so that each \<open>catch\<close> of the source is a case of the model.
\<close>

datatype bridge_outcome = BridgeReply bridge_result | BridgeTimeout | BridgeUnreachable

datatype completion_outcome =
    CompletionFailed string
  | CompletionStatus nat
  | CompletionContent "string list"

datatype tools_outcome = ToolsFailed | ToolsReply "Tool list option"

datatype event =
    CompletionCall string "Message list"
  | ExecuteCall json json
  | ToolsCall
  | ScheduleCall when_value ScheduledAction
  | CancelCall string
  | SendCall string WSMessage

text \<open>
  The builtins \<open>JSON.parse\<close>, \<open>new Date(string)\<close>, the rendering of numbers and
  \<open>toISOString\<close> are parameters too, as is the text of the system prompt, which is built
  from the tools and the preferences and only ever handed to the completion service.
\<close>

record 'w env =
  JSON_parse :: "string \<Rightarrow> json option"
  Date_parse :: "string \<Rightarrow> int option"
  Number_toString :: "rat \<Rightarrow> string"
  toISOString :: "int \<Rightarrow> string"
  buildSystemPrompt :: "Tool list \<Rightarrow> (string \<times> json) list \<Rightarrow> string"
  API_SECRET :: string
  Date_now :: "'w \<Rightarrow> int \<times> 'w"
  fetch_tools :: "'w \<Rightarrow> tools_outcome \<times> 'w"
  fetch_completion :: "'w \<Rightarrow> string \<Rightarrow> Message list \<Rightarrow> completion_outcome \<times> 'w"
  fetch_execute :: "'w \<Rightarrow> json \<Rightarrow> json \<Rightarrow> bridge_outcome \<times> 'w"
  sdk_schedule :: "'w \<Rightarrow> when_value \<Rightarrow> ScheduledAction \<Rightarrow> (error + string) \<times> 'w"
  sdk_cancelSchedule :: "'w \<Rightarrow> string \<Rightarrow> 'w"
  connection_send :: "'w \<Rightarrow> string \<Rightarrow> WSMessage \<Rightarrow> bool \<times> 'w"

text \<open>
  The agent: its state, the world, the calls made so far and the open connections.
\<close>

record 'w agent =
  state :: SystemState
  world :: "'w"
  trace :: "event list"
  connections :: "string list"

definition now :: "'w env \<Rightarrow> 'w agent \<Rightarrow> int \<times> 'w agent" where
  "now env a = (let (t, w) = Date_now env (world a) in (t, a\<lparr>world := w\<rparr>))"

definition strOpt :: "string option \<Rightarrow> string" where
  "strOpt x = (case x of None \<Rightarrow> ''undefined'' | Some s \<Rightarrow> s)"

section \<open>Rate limiting\<close>

record rate_check =
  allowed :: bool
  remaining :: int
  resetIn :: int

definition checkRateLimit :: "'w env \<Rightarrow> 'w agent \<Rightarrow> rate_check \<times> 'w agent" where
  "checkRateLimit env a0 =
     (let (t, a) = now env a0;
          fresh = \<lparr>count = 0, resetAt = t + RATE_WINDOW\<rparr>;
          rl0 = (case rateLimit (state a) of
                   None \<Rightarrow> fresh
                 | Some r \<Rightarrow> if t \<ge> resetAt r then fresh else r);
          rl = rl0\<lparr>count := count rl0 + 1\<rparr>
      in (\<lparr>allowed = (count rl \<le> RATE_LIMIT),
           remaining = max 0 (RATE_LIMIT - count rl),
           resetIn = max 0 (resetAt rl - t)\<rparr>,
          a\<lparr>state := (state a)\<lparr>rateLimit := Some rl\<rparr>\<rparr>))"

section \<open>Calls to the services\<close>

definition callBridge :: "'w env \<Rightarrow> json \<Rightarrow> json \<Rightarrow> 'w agent \<Rightarrow> bridge_result \<times> 'w agent" where
  "callBridge env tool args a =
     (let (out, w) = fetch_execute env (world a) tool args;
          a' = a\<lparr>world := w, trace := trace a @ [ExecuteCall tool args]\<rparr>
      in (case out of
            BridgeReply r \<Rightarrow> r
          | BridgeTimeout \<Rightarrow>
              \<lparr>success = False, result = None, error = Some ''Timeout'', image = None\<rparr>
          | BridgeUnreachable \<Rightarrow>
              \<lparr>success = False, result = None, error = Some ''Bridge unreachable'', image = None\<rparr>,
          a'))"

definition callClaude ::
  "'w env \<Rightarrow> string \<Rightarrow> Message list \<Rightarrow> 'w agent \<Rightarrow> (error + string) \<times> 'w agent" where
  "callClaude env systemPrompt messages a =
     (let (out, w) = fetch_completion env (world a) systemPrompt messages;
          a' = a\<lparr>world := w, trace := trace a @ [CompletionCall systemPrompt messages]\<rparr>
      in (case out of
            CompletionFailed m \<Rightarrow> Inl (ApiError m)
          | CompletionStatus n \<Rightarrow> Inl (ApiError (''Claude API error: '' @ showNat n))
          | CompletionContent texts \<Rightarrow>
              (case texts of
                 [] \<Rightarrow> Inr ''No response''
               | t # _ \<Rightarrow> if t = [] then Inr ''No response'' else Inr t),
          a'))"

definition fetchTools :: "'w env \<Rightarrow> 'w agent \<Rightarrow> Tool list \<times> 'w agent" where
  "fetchTools env a =
     (let (out, w) = fetch_tools env (world a);
          a' = a\<lparr>world := w, trace := trace a @ [ToolsCall]\<rparr>
      in (case out of
            ToolsFailed \<Rightarrow> []
          | ToolsReply None \<Rightarrow> []
          | ToolsReply (Some ts) \<Rightarrow> ts,
          a'))"

section \<open>Response parser\<close>

definition fence :: "string \<Rightarrow> rx" where
  "fence kind =
     seqs [Str (''```'' @ kind), Opt (Chr (CHR 0x0A)), Grp 1 (RepLazy anyChar 0),
           Opt (Chr (CHR 0x0A)), Str ''```'']"

text \<open>
  The loop over \<open>actionRegex.exec(content)\<close>: each round searches the text from where
  the last match ended, so the function works on what is left of the text.  A match
  holds the opening fence, hence is never empty.
\<close>

function action_blocks :: "string \<Rightarrow> string list" where
  "action_blocks s =
     (if s = [] then []
      else case rx_exec False (fence ''action'') s of
        None \<Rightarrow> []
      | Some m \<Rightarrow>
          (case group m 1 of None \<Rightarrow> [] | Some b \<Rightarrow> [b])
          @ action_blocks (drop (max 1 (m_index m + m_length m)) s))"
  by pat_completeness auto
termination
  by (relation "measure length") auto

declare action_blocks.simps [simp del]

definition parse_actions :: "(string \<Rightarrow> json option) \<Rightarrow> string list \<Rightarrow> json list" where
  "parse_actions parse blocks =
     concat (map (\<lambda>b. case parse b of
                         None \<Rightarrow> []
                       | Some action \<Rightarrow> if truthy (opt_prop action ''tool'') then [action] else [])
                 blocks)"

record parsed_response =
  p_text :: string
  p_actions :: "json list"
  p_schedule :: json

definition parseResponse :: "'w env \<Rightarrow> string \<Rightarrow> 'w agent \<Rightarrow> parsed_response \<times> 'w agent" where
  "parseResponse env completion a =
     (let actions = parse_actions (JSON_parse env) (action_blocks completion);
          text1 = trim (remove_all False (fence ''action'') completion);
          (schedule, text2) =
            (case rx_exec False (fence ''schedule'') completion of
               None \<Rightarrow> (JUndefined, text1)
             | Some m \<Rightarrow>
                 (case JSON_parse env (case group m 1 of None \<Rightarrow> [] | Some b \<Rightarrow> b) of
                    None \<Rightarrow> (JUndefined, text1)
                  | Some v \<Rightarrow> (v, trim (remove_first False (fence ''schedule'') text1))));
          (text3, a') =
            (case rx_exec False (fence ''preference'') completion of
               None \<Rightarrow> (text2, a)
             | Some m \<Rightarrow>
                 (case JSON_parse env (case group m 1 of None \<Rightarrow> [] | Some b \<Rightarrow> b) of
                    None \<Rightarrow> (text2, a)
                  | Some pref \<Rightarrow>
                      (trim (remove_first False (fence ''preference'') text2),
                       if truthy pref
                       then a\<lparr>state := (state a)\<lparr>preferences :=
                              AList.update (to_string (Number_toString env) (json_member pref ''key''))
                                           (json_member pref ''value'')
                                           (preferences (state a))\<rparr>\<rparr>
                       else a)))
      in (\<lparr>p_text = (if text3 = [] then ''Done!'' else text3),
           p_actions = actions, p_schedule = schedule\<rparr>, a'))"

section \<open>Scheduler\<close>

text \<open>
  \<open>scheduleAction\<close> hands the directive's \<open>when\<close> to \<open>parseWhen\<close>, which reads the clock
  and then calls \<open>trim\<close> on it: anything but a string throws there.
\<close>

definition scheduleAction :: "'w env \<Rightarrow> json \<Rightarrow> 'w agent \<Rightarrow> (error + string) \<times> 'w agent" where
  "scheduleAction env schedule a0 =
     (let (t, a1) = now env a0
      in case json_member schedule ''when'' of
        JStr w \<Rightarrow>
          (let when = parseWhen (Date_parse env) t w;
               load = \<lparr>sa_tool = json_member schedule ''tool'',
                       sa_args = json_member schedule ''args'',
                       sa_description = json_member schedule ''description''\<rparr>;
               (out, wd) = sdk_schedule env (world a1) when load;
               a2 = a1\<lparr>world := wd, trace := trace a1 @ [ScheduleCall when load]\<rparr>
           in case out of
             Inl e \<Rightarrow> (Inl e, a2)
           | Inr sid \<Rightarrow>
               (let isRecurring = (case when of WhenCron c \<Rightarrow> includes_str c ''*''
                                              | WhenDate d \<Rightarrow> False);
                    (t2, a3) = now env a2;
                    rec = \<lparr>sr_id = sid,
                           sr_when = (case when of WhenCron c \<Rightarrow> c | WhenDate d \<Rightarrow> w),
                           sr_tool = json_member schedule ''tool'',
                           sr_args = json_member schedule ''args'',
                           sr_description = json_member schedule ''description'',
                           createdAt = t2,
                           sr_type = (if isRecurring then Recurring else OneTime)\<rparr>
                in (Inr sid,
                    a3\<lparr>state := (state a3)\<lparr>scheduleRegistry :=
                                   scheduleRegistry (state a3) @ [rec]\<rparr>\<rparr>)))
      | _ \<Rightarrow> (Inl (TypeError ''when.trim is not a function''), a1))"

definition sendToConnection :: "'w env \<Rightarrow> string \<Rightarrow> WSMessage \<Rightarrow> 'w agent \<Rightarrow> 'w agent" where
  "sendToConnection env conn msg a =
     (let (ok, w) = connection_send env (world a) conn msg;
          a' = a\<lparr>world := w, trace := trace a @ [SendCall conn msg]\<rparr>
      in if ok then a' else a'\<lparr>connections := removeAll conn (connections a')\<rparr>)"

fun broadcast_loop :: "'w env \<Rightarrow> WSMessage \<Rightarrow> string list \<Rightarrow> 'w agent \<Rightarrow> 'w agent" where
  "broadcast_loop env msg [] a = a"
| "broadcast_loop env msg (conn # conns) a =
     broadcast_loop env msg conns (sendToConnection env conn msg a)"

definition broadcastToClients :: "'w env \<Rightarrow> WSMessage \<Rightarrow> 'w agent \<Rightarrow> 'w agent" where
  "broadcastToClients env msg a = broadcast_loop env msg (connections a) a"

definition nl :: string where
  "nl = [CHR 0x0A]"

definition dq :: string where
  "dq = [CHR 0x22]"


section \<open>Pending actions and chat processing\<close>

definition confirmation_rx :: rx where
  "confirmation_rx =
     seqs [Grp 1 (alts (Str ''yes'')
                    [Str ''yeah'', Str ''yep'', Str ''yup'', Str ''sure'', Str ''ok'', Str ''okay'',
                     Str ''do it'', Str ''send it'', Str ''confirm'', Str ''go ahead'',
                     Str ''please'', Str ''y'']),
           Opt (Chr CHR ''.''), Opt (Chr CHR ''!''), Eos]"

definition cancellation_rx :: rx where
  "cancellation_rx =
     seqs [Grp 1 (alts (Str ''no'')
                    [Str ''nope'', Str ''cancel'', Str ''stop'', Str (''don'' @ [CHR 0x27] @ ''t''),
                     Str ''nevermind'', Str ''never mind'', Str ''abort'', Str ''n'']),
           Opt (Chr CHR ''.''), Opt (Chr CHR ''!''), Eos]"

definition isConfirmation :: "string \<Rightarrow> bool" where
  "isConfirmation message = rx_test_anchored True confirmation_rx (trim message)"

definition isCancellation :: "string \<Rightarrow> bool" where
  "isCancellation message = rx_test_anchored True cancellation_rx (trim message)"

definition phoneSep :: "char \<Rightarrow> bool" where
  "phoneSep c = (isSpace c \<or> c = CHR ''-'' \<or> c = CHR ''.'')"

definition phonePunct :: "char \<Rightarrow> bool" where
  "phonePunct c = (phoneSep c \<or> c = CHR ''('' \<or> c = CHR '')'')"

definition phone_rx :: rx where
  "phone_rx =
     seqs [Opt (Chr CHR ''+''), Opt (Chr CHR ''1''), Opt (Cls phoneSep), Opt (Chr CHR ''(''),
           Rep isDigit 3 (Some 3), Opt (Chr CHR '')''), Opt (Cls phoneSep),
           Rep isDigit 3 (Some 3), Opt (Cls phoneSep), Rep isDigit 4 (Some 4)]"

definition isQuote :: "char \<Rightarrow> bool" where
  "isQuote c = (c = CHR 0x22 \<or> c = CHR 0x27)"

definition dotChar :: "char \<Rightarrow> bool" where
  "dotChar c = (code c \<noteq> 10 \<and> code c \<noteq> 13)"

definition saying_rx :: "rx \<Rightarrow> rx" where
  "saying_rx lead =
     seqs [lead, Rep isSpace 1 None, Opt (Cls isQuote), Grp 1 (RepLazy dotChar 1),
           Opt (Cls isQuote), Eos]"

definition patterns :: "rx list" where
  "patterns = [saying_rx (Alt (Str ''saying'') (Str ''say'')),
               saying_rx (Alt (Str ''that'') (Str ''to say''))]"

text \<open>
  \<open>replace(/^["']|["']$/g, '')\<close>: a quote at the start goes, and so does a quote at the
  end of what follows it.
\<close>

definition strip_quotes :: "string \<Rightarrow> string" where
  "strip_quotes s =
     (let s1 = (case s of [] \<Rightarrow> [] | c # cs \<Rightarrow> if isQuote c then cs else s)
      in if s1 \<noteq> [] \<and> isQuote (last s1) then butlast s1 else s1)"

fun extract_message :: "rx list \<Rightarrow> string \<Rightarrow> string option" where
  "extract_message [] message = None"
| "extract_message (p # ps) message =
     (case rx_exec True p message of
        None \<Rightarrow> extract_message ps message
      | Some m \<Rightarrow>
          (case group m 1 of
             None \<Rightarrow> extract_message ps message
           | Some g \<Rightarrow> if g \<noteq> [] then Some (strip_quotes (trim g))
                       else extract_message ps message))"

definition makeup_rx :: rx where
  "makeup_rx =
     alts (seqs [Str ''make'', Rep isSpace 0 None, Str ''up''])
          [Str ''create'', Str ''write'', Str ''generate'']"

datatype loop_exit = Returned chat_result | Completed "action_result list"

definition send_imessage :: string where
  "send_imessage = ''send_imessage''"

text \<open>
  The contact search that leads to a message: \<open>None\<close> when the loop over the actions
  goes on, otherwise the early return of \<open>processChat\<close> (or what was thrown).
\<close>

definition contact_flow ::
  "'w env \<Rightarrow> string \<Rightarrow> json \<Rightarrow> bridge_result \<Rightarrow> action_result list \<Rightarrow> 'w agent
     \<Rightarrow> ((error + loop_exit) \<times> 'w agent) option" where
  "contact_flow env message action res actionResults a =
     (case result res of
        None \<Rightarrow> None
      | Some found \<Rightarrow>
          if strict_eq (json_member action ''tool'') (JStr ''search_contacts'') \<and> success res
             \<and> found \<noteq> [] \<and> \<not> includes_str (toLowerCase found) ''error''
          then
            (case rx_exec False phone_rx found of
               None \<Rightarrow> None
             | Some pm \<Rightarrow>
                 (let phone = filter (\<lambda>c. \<not> phonePunct c) (matched found pm)
                  in if phone = [] then None
                     else case read_prop (json_member action ''args'') ''message'' of
                       Inl e \<Rightarrow> Some (Inl e, a)
                     | Inr v \<Rightarrow>
                         (let intendedMessage =
                                (if truthy v then v
                                 else case extract_message patterns message of
                                        None \<Rightarrow> JStr []
                                      | Some x \<Rightarrow> JStr x)
                          in if rx_test True makeup_rx message
                             then
                               (case callClaude env
                                       ''Write a short, friendly message. Just the text, nothing else.''
                                       [\<lparr>role = User, content = ''Write: '' @ dq @ message @ dq\<rparr>] a of
                                  (Inl e, a1) \<Rightarrow> Some (Inl e, a1)
                                | (Inr generated, a1) \<Rightarrow>
                                    Some (Inr (Returned
                                            \<lparr>cr_message = ''Found: **'' @ found @ ''**'' @ nl @ nl
                                                 @ ''> '' @ dq @ trim generated @ dq @ nl @ nl
                                                 @ ''Send? *(yes/no)*'',
                                             cr_action = None,
                                             cr_actions = Some actionResults,
                                             cr_scheduled = None\<rparr>),
                                          a1\<lparr>state := (state a1)\<lparr>pendingAction := Some
                                               \<lparr>pa_tool = send_imessage,
                                                pa_args = [(''to'', JStr phone),
                                                           (''message'', JStr (trim generated))],
                                                pa_context = found,
                                                originalRequest = message\<rparr>\<rparr>\<rparr>))
                             else
                               Some (Inr (Returned
                                       \<lparr>cr_message =
                                          (if truthy intendedMessage
                                           then ''Found: **'' @ found @ ''**'' @ nl @ nl @ ''Send '' @ dq
                                                @ to_string (Number_toString env) intendedMessage
                                                @ dq @ ''? *(yes/no)*''
                                           else ''Found: **'' @ found @ ''**'' @ nl @ nl
                                                @ ''What message?''),
                                        cr_action = None,
                                        cr_actions = Some actionResults,
                                        cr_scheduled = None\<rparr>),
                                     a\<lparr>state := (state a)\<lparr>
                                         pendingAction := Some
                                           \<lparr>pa_tool = send_imessage,
                                            pa_args = [(''to'', JStr phone),
                                                       (''message'', intendedMessage)],
                                            pa_context = found,
                                            originalRequest = message\<rparr>,
                                         history := slice_last 50
                                           (history (state a)
                                            @ [\<lparr>role = User, content = message\<rparr>])\<rparr>\<rparr>))))
          else None)"

fun run_actions ::
  "'w env \<Rightarrow> string \<Rightarrow> json list \<Rightarrow> action_result list \<Rightarrow> 'w agent
     \<Rightarrow> (error + loop_exit) \<times> 'w agent" where
  "run_actions env message [] actionResults a = (Inr (Completed actionResults), a)"
| "run_actions env message (action # rest) actionResults a0 =
     (let tool = json_member action ''tool'';
          args = json_member action ''args'';
          (res, a1) = callBridge env tool args a0;
          actionResults1 = actionResults
            @ [\<lparr>ar_tool = tool, ar_args = args,
                ar_result = (if success res then result res else error res),
                ar_success = success res, ar_image = image res\<rparr>]
      in case contact_flow env message action res actionResults1 a1 of
           Some out \<Rightarrow> out
         | None \<Rightarrow> run_actions env message rest actionResults1 a1)"

text \<open>
  The part of \<open>processChat\<close> after the pending action has been dealt with, in the
  order of the source: the completion call and the parsing of its text
  (\<open>process_with_claude\<close>), the registration of a schedule directive
  (\<open>register_schedule\<close>), then the loop over the actions and the final update of the
  history (\<open>complete_turn\<close>).
\<close>

definition register_schedule ::
  "'w env \<Rightarrow> json \<Rightarrow> 'w agent \<Rightarrow> (error + scheduled_task option) \<times> 'w agent" where
  "register_schedule env schedule a =
     (if truthy schedule
      then (case scheduleAction env schedule a of
              (Inl e, a') \<Rightarrow> (Inl e, a')
            | (Inr sid, a') \<Rightarrow>
                (Inr (Some \<lparr>task_id = sid,
                            task_when = json_member schedule ''when'',
                            task_description = json_member schedule ''description''\<rparr>),
                 a'))
      else (Inr None, a))"

definition complete_turn ::
  "'w env \<Rightarrow> string \<Rightarrow> string \<Rightarrow> parsed_response \<Rightarrow> scheduled_task option \<Rightarrow> 'w agent
     \<Rightarrow> (error + chat_result) \<times> 'w agent" where
  "complete_turn env message response parsed scheduledTask a =
     (case run_actions env message (p_actions parsed) [] a of
        (Inl e, a1) \<Rightarrow> (Inl e, a1)
      | (Inr (Returned r), a1) \<Rightarrow> (Inr r, a1)
      | (Inr (Completed actionResults), a1) \<Rightarrow>
          (let (t, a2) = now env a1
           in (Inr \<lparr>cr_message = p_text parsed,
                    cr_action = (case actionResults of [] \<Rightarrow> None | r # _ \<Rightarrow> Some r),
                    cr_actions = Some actionResults,
                    cr_scheduled = scheduledTask\<rparr>,
               a2\<lparr>state := (state a2)\<lparr>
                    history := slice_last 50
                      (history (state a2)
                       @ [\<lparr>role = User, content = message\<rparr>,
                          \<lparr>role = Assistant, content = response\<rparr>]),
                    lastActive := t\<rparr>\<rparr>)))"

definition process_with_claude ::
  "'w env \<Rightarrow> string \<Rightarrow> 'w agent \<Rightarrow> (error + chat_result) \<times> 'w agent" where
  "process_with_claude env message a0 =
     (let (tools, a1) = fetchTools env a0;
          messages = slice_last 40 (history (state a1)) @ [\<lparr>role = User, content = message\<rparr>];
          systemPrompt = buildSystemPrompt env tools (preferences (state a1))
      in case callClaude env systemPrompt messages a1 of
        (Inl e, a2) \<Rightarrow> (Inl e, a2)
      | (Inr response, a2) \<Rightarrow>
          (let (parsed, a3) = parseResponse env response a2
           in case register_schedule env (p_schedule parsed) a3 of
             (Inl e, a4) \<Rightarrow> (Inl e, a4)
           | (Inr scheduledTask, a4) \<Rightarrow>
               complete_turn env message response parsed scheduledTask a4))"

definition processChat ::
  "'w env \<Rightarrow> string \<Rightarrow> 'w agent \<Rightarrow> (error + chat_result) \<times> 'w agent" where
  "processChat env message a0 =
     (case pendingAction (state a0) of
        None \<Rightarrow> process_with_claude env message a0
      | Some pending \<Rightarrow>
          if isConfirmation message then
            (let (res, a1) = callBridge env (JStr (pa_tool pending)) (JObj (pa_args pending)) a0;
                 (t, a2) = now env a1
             in (Inr \<lparr>cr_message = (if success res then ''Sent!''
                                      else ''Failed: '' @ strOpt (error res)),
                      cr_action = Some \<lparr>ar_tool = JStr (pa_tool pending),
                                        ar_args = JObj (pa_args pending),
                                        ar_result = (if success res then result res else error res),
                                        ar_success = success res,
                                        ar_image = None\<rparr>,
                      cr_actions = None,
                      cr_scheduled = None\<rparr>,
                 a2\<lparr>state := (state a2)\<lparr>
                      pendingAction := None,
                      history := slice_last 50
                        (history (state a2)
                         @ [\<lparr>role = User, content = message\<rparr>,
                            \<lparr>role = Assistant,
                             content = (if success res then ''Sent!'' else ''Failed.'')\<rparr>]),
                      lastActive := t\<rparr>\<rparr>))
          else if isCancellation message then
            (let (t, a1) = now env a0
             in (Inr \<lparr>cr_message = ''Cancelled.'', cr_action = None, cr_actions = None,
                      cr_scheduled = None\<rparr>,
                 a1\<lparr>state := (state a1)\<lparr>
                      pendingAction := None,
                      history := slice_last 50
                        (history (state a1)
                         @ [\<lparr>role = User, content = message\<rparr>,
                            \<lparr>role = Assistant, content = ''Cancelled.''\<rparr>]),
                      lastActive := t\<rparr>\<rparr>))
          else if json_member (JObj (pa_args pending)) ''message'' = JStr []
                  \<and> pa_tool pending = send_imessage then
            (let (t, a1) = now env a0
             in (Inr \<lparr>cr_message = ''Send '' @ dq @ message @ dq @ '' to ''
                        @ to_string (Number_toString env)
                            (json_member (JObj (pa_args pending)) ''to'')
                        @ ''? *(yes/no)*'',
                      cr_action = None, cr_actions = None, cr_scheduled = None\<rparr>,
                 a1\<lparr>state := (state a1)\<lparr>
                      pendingAction := Some
                        (pending\<lparr>pa_args := AList.update ''message'' (JStr message)
                                                 (pa_args pending)\<rparr>),
                      history := slice_last 50
                        (history (state a1) @ [\<lparr>role = User, content = message\<rparr>]),
                      lastActive := t\<rparr>\<rparr>))
          else process_with_claude env message
                 (a0\<lparr>state := (state a0)\<lparr>pendingAction := None\<rparr>\<rparr>))"

section \<open>HTTP and WebSocket surface\<close>

text \<open>
  A request as the handler reads it: the method, the path of the URL, and the JSON body
  at the type the handler casts it to (\<open>{message: string}\<close> for a chat,
  \<open>{tool, args}\<close> for a direct execution), or the error that reading it throws.
\<close>

record request =
  req_method :: string
  req_path :: string
  chat_message :: "error + string"
  execute_call :: "error + json \<times> json"

datatype body =
    Online string
  | Awake string nat
  | ErrorBody string
  | ChatBody chat_result
  | ExecuteBody bridge_result
  | SuccessBody "string option"
  | StateBody nat "(string \<times> json) list" "PendingAction option" int
  | SchedulesBody "ScheduleRecord list"
  | HistoryBody "Message list" int

record response =
  status :: nat
  headers :: "(string \<times> string) list"
  body :: body

definition json_response :: "nat \<Rightarrow> body \<Rightarrow> response" where
  "json_response st b = \<lparr>status = st, headers = [], body = b\<rparr>"

definition handleChat :: "'w env \<Rightarrow> request \<Rightarrow> 'w agent \<Rightarrow> response \<times> 'w agent" where
  "handleChat env req a =
     (case chat_message req of
        Inl e \<Rightarrow> (json_response 500 (ErrorBody (message_of e)), a)
      | Inr message \<Rightarrow>
          (case processChat env message a of
             (Inl e, a') \<Rightarrow> (json_response 500 (ErrorBody (message_of e)), a')
           | (Inr r, a') \<Rightarrow> (json_response 200 (ChatBody r), a')))"

definition handleExecute :: "'w env \<Rightarrow> request \<Rightarrow> 'w agent \<Rightarrow> response \<times> 'w agent" where
  "handleExecute env req a =
     (case execute_call req of
        Inl e \<Rightarrow> (json_response 500 (ErrorBody (message_of e)), a)
      | Inr (tool, args) \<Rightarrow>
          (let (res, a') = callBridge env tool args a
           in (json_response 200 (ExecuteBody res), a')))"

definition notSlash :: "char \<Rightarrow> bool" where
  "notSlash c = (c \<noteq> CHR ''/'')"

definition delete_rx :: rx where
  "delete_rx = seqs [Str ''/schedules/'', Rep notSlash 1 None, Eos]"

definition last_segment :: "string \<Rightarrow> string" where
  "last_segment p = rev (takeWhile notSlash (rev p))"

definition onRequest :: "'w env \<Rightarrow> request \<Rightarrow> 'w agent \<Rightarrow> response \<times> 'w agent" where
  "onRequest env req a0 =
     (if req_path req = ''/'' \<and> req_method req = ''GET'' then
        (let (t, a1) = now env a0 in (json_response 200 (Online (toISOString env t)), a1))
      else if endsWith (req_path req) ''/health'' then
        (let (t, a1) = now env a0
         in (json_response 200 (Awake (toISOString env t) (length (scheduleRegistry (state a1)))),
             a1))
      else
        (let (check, a1) = checkRateLimit env a0
         in if \<not> allowed check then
              (\<lparr>status = 429,
                headers = [(''X-RateLimit-Reset'', showNat (nat ((resetIn check + 999) div 1000)))],
                body = ErrorBody ''Rate limit exceeded''\<rparr>, a1)
            else if endsWith (req_path req) ''/chat'' \<and> req_method req = ''POST'' then
              handleChat env req a1
            else if endsWith (req_path req) ''/reset'' \<and> req_method req = ''POST'' then
              (let prefs = preferences (state a1);
                   (t, a2) = now env a1
               in (json_response 200 (SuccessBody (Some ''History cleared, preferences kept'')),
                   a2\<lparr>state := (initialState t)\<lparr>preferences := prefs, lastActive := t\<rparr>\<rparr>))
            else if endsWith (req_path req) ''/state'' \<and> req_method req = ''GET'' then
              (json_response 200
                 (StateBody (length (history (state a1))) (preferences (state a1))
                    (pendingAction (state a1)) (lastActive (state a1))), a1)
            else if endsWith (req_path req) ''/execute'' \<and> req_method req = ''POST'' then
              handleExecute env req a1
            else if endsWith (req_path req) ''/schedules'' \<and> req_method req = ''GET'' then
              (json_response 200 (SchedulesBody (scheduleRegistry (state a1))), a1)
            else if rx_test False delete_rx (req_path req) \<and> req_method req = ''DELETE'' then
              (let scheduleId = last_segment (req_path req)
               in if scheduleId \<noteq> [] then
                    (let a2 = a1\<lparr>world := sdk_cancelSchedule env (world a1) scheduleId,
                                 trace := trace a1 @ [CancelCall scheduleId]\<rparr>
                     in (json_response 200 (SuccessBody None),
                         a2\<lparr>state := (state a2)\<lparr>scheduleRegistry :=
                              filter (\<lambda>s. sr_id s \<noteq> scheduleId) (scheduleRegistry (state a2))\<rparr>\<rparr>))
                  else (json_response 400 (ErrorBody ''Invalid schedule ID''), a1))
            else if endsWith (req_path req) ''/history'' \<and> req_method req = ''GET'' then
              (json_response 200 (HistoryBody (history (state a1)) (lastActive (state a1))), a1)
            else if endsWith (req_path req) ''/clear'' \<and> req_method req = ''POST'' then
              (json_response 200 (SuccessBody None),
               a1\<lparr>state := (state a1)\<lparr>history := []\<rparr>\<rparr>)
            else (json_response 404 (ErrorBody ''Not found''), a1)))"

text \<open>
  A message on the real-time channel, after \<open>JSON.parse\<close>: binary data, text that does
  not parse (or parses to \<open>null\<close>), a ping, a chat with its token and message, or
  anything else.  The whole handler sits in a \<open>try\<close> whose \<open>catch\<close> is empty.
\<close>

datatype ws_in =
    Binary
  | Unparsable
  | PingMsg
  | ChatMsg string string
  | OtherMsg

definition ws_message :: "'w env \<Rightarrow> ws_type \<Rightarrow> ws_payload \<Rightarrow> 'w agent \<Rightarrow> WSMessage \<times> 'w agent" where
  "ws_message env ty pl a =
     (let (t, a1) = now env a
      in (\<lparr>ws_type = ty, payload = pl, timestamp = toISOString env t\<rparr>, a1))"

definition onMessage :: "'w env \<Rightarrow> string \<Rightarrow> ws_in \<Rightarrow> 'w agent \<Rightarrow> 'w agent" where
  "onMessage env conn msg a0 =
     (case msg of
        Binary \<Rightarrow> a0
      | Unparsable \<Rightarrow> a0
      | OtherMsg \<Rightarrow> a0
      | PingMsg \<Rightarrow>
          (let (m, a1) = ws_message env Ping Pong a0 in sendToConnection env conn m a1)
      | ChatMsg token message \<Rightarrow>
          if token \<noteq> [] \<and> message \<noteq> [] then
            if \<not> timingSafeEqual (charCodes token) (charCodes (API_SECRET env)) then
              (let (m, a1) = ws_message env Notification (Notice ''Error'' ''Invalid token'') a0
               in sendToConnection env conn m a1)
            else
              (case processChat env message a0 of
                 (Inl e, a1) \<Rightarrow> a1
               | (Inr r, a1) \<Rightarrow>
                   (let (m, a2) = ws_message env Chat (ChatPayload r) a1
                    in sendToConnection env conn m a2))
          else a0)"

definition onConnect :: "'w env \<Rightarrow> string \<Rightarrow> 'w agent \<Rightarrow> 'w agent" where
  "onConnect env conn a0 =
     (let a1 = a0\<lparr>connections := (if conn \<in> set (connections a0) then connections a0
                                     else connections a0 @ [conn])\<rparr>;
          (m, a2) = ws_message env Notification
                      (Notice ''Connected'' ''Real-time updates enabled'') a1
      in sendToConnection env conn m a2)"

definition onClose :: "string \<Rightarrow> 'w agent \<Rightarrow> 'w agent" where
  "onClose conn a = a\<lparr>connections := removeAll conn (connections a)\<rparr>"

section \<open>Sequences of operations\<close>




text \<open>Consecutive rate-limit checks, and the clock readings they make.\<close>

fun checkRateLimit_times :: "'w env \<Rightarrow> nat \<Rightarrow> 'w agent \<Rightarrow> rate_check list \<times> 'w agent" where
  "checkRateLimit_times env 0 a = ([], a)"
| "checkRateLimit_times env (Suc n) a =
     (let (c, a1) = checkRateLimit env a;
          (cs, a2) = checkRateLimit_times env n a1
      in (c # cs, a2))"

fun clock_readings :: "'w env \<Rightarrow> nat \<Rightarrow> 'w \<Rightarrow> int list" where
  "clock_readings env 0 w = []"
| "clock_readings env (Suc n) w = (let (t, w1) = Date_now env w in t # clock_readings env n w1)"

text \<open>The test of \<open>checkRateLimit\<close> for opening a new window: \<open>!rateLimit || now >= rateLimit.resetAt\<close>.\<close>

definition window_over :: "RateLimit option \<Rightarrow> int \<Rightarrow> bool" where
  "window_over rl t = (case rl of None \<Rightarrow> True | Some r \<Rightarrow> t \<ge> resetAt r)"

section \<open>Sample surroundings\<close>

text \<open>
  A small world to run the agent in: the world is a counter that the clock reads in
  milliseconds and advances by one, the services answer at once.
\<close>

definition sample_parse :: "string \<Rightarrow> json option" where
  "sample_parse s =
     (if s = ''{\"tool\":\"battery_status\"}'' then Some (JObj [(''tool'', JStr ''battery_status'')])
      else if s = ''{\"when\":\"in 5 minutes\"}'' then Some (JObj [(''when'', JStr ''in 5 minutes'')])
      else if s = ''{\"key\":\"wife\"}'' then Some (JObj [(''key'', JStr ''wife'')])
      else None)"

definition sample_env :: "nat env" where
  "sample_env =
     \<lparr>JSON_parse = sample_parse,
      Date_parse = (\<lambda>s. None),
      Number_toString = (\<lambda>r. ''0''),
      toISOString = (\<lambda>t. ''T''),
      buildSystemPrompt = (\<lambda>tools prefs. ''You are SYSTEM''),
      API_SECRET = ''secret'',
      Date_now = (\<lambda>w. (int w, Suc w)),
      fetch_tools = (\<lambda>w. (ToolsReply (Some []), w)),
      fetch_completion = (\<lambda>w p ms. (CompletionContent [''Hello''], w)),
      fetch_execute = (\<lambda>w t args.
         (BridgeReply \<lparr>success = True, result = Some ''done'', error = None, image = None\<rparr>, w)),
      sdk_schedule = (\<lambda>w wh load. (Inr ''schedule-1'', w)),
      sdk_cancelSchedule = (\<lambda>w i. w),
      connection_send = (\<lambda>w c m. (True, w))\<rparr>"

definition sample_agent :: "SystemState \<Rightarrow> nat \<Rightarrow> nat agent" where
  "sample_agent st w = \<lparr>state = st, world = w, trace = [], connections = []\<rparr>"

definition limited :: "nat agent" where
  "limited =
     sample_agent ((initialState 0)\<lparr>rateLimit := Some \<lparr>count = 75, resetAt = 1000\<rparr>\<rparr>) 1000"

definition busy_state :: SystemState where
  "busy_state =
     \<lparr>history = [\<lparr>role = User, content = ''find John''\<rparr>],
      preferences = [(''wife'', JStr ''Ann'')],
      lastActive = 0,
      pendingAction = Some \<lparr>pa_tool = send_imessage,
                             pa_args = [(''to'', JStr ''5551234567''), (''message'', JStr ''hi'')],
                             pa_context = ''John: (555) 123-4567'',
                             originalRequest = ''find John''\<rparr>,
      rateLimit = None,
      scheduleRegistry = [\<lparr>sr_id = ''schedule-1'', sr_when = ''0 9 * * *'', sr_tool = JStr ''notify'',
                           sr_args = JObj [], sr_description = JStr ''Reminder'', createdAt = 0,
                           sr_type = Recurring\<rparr>]\<rparr>"

definition throttled_state :: SystemState where
  "throttled_state = busy_state\<lparr>rateLimit := Some \<lparr>count = 60, resetAt = 61000\<rparr>\<rparr>"

definition post :: "string \<Rightarrow> request" where
  "post p = \<lparr>req_method = ''POST'', req_path = p, chat_message = Inr ''hello'',
             execute_call = Inl (SyntaxError ''Unexpected end of JSON input'')\<rparr>"

section \<open>The words of an expression\<close>

text \<open>
  For an expression built without classes and repetition, the texts it matches when
  case is ignored are, in lower case, the finitely many \<open>words_of\<close> it;
  \<open>to_the_end\<close> says that its last step is the end anchor.
\<close>

fun plain :: "rx \<Rightarrow> bool" where
  "plain (Chr p) = True"
| "plain (Cls P) = False"
| "plain (Str ps) = True"
| "plain (Seq a b) = (plain a \<and> plain b)"
| "plain (Alt a b) = (plain a \<and> plain b)"
| "plain (Opt a) = plain a"
| "plain (Rep P lo hi) = False"
| "plain (RepLazy P lo) = False"
| "plain (Grp i a) = plain a"
| "plain Eos = True"

fun words_of :: "rx \<Rightarrow> string list" where
  "words_of (Chr p) = [[lowerChar p]]"
| "words_of (Cls P) = []"
| "words_of (Str ps) = [toLowerCase ps]"
| "words_of (Seq a b) = concat (map (\<lambda>u. map (\<lambda>v. u @ v) (words_of b)) (words_of a))"
| "words_of (Alt a b) = words_of a @ words_of b"
| "words_of (Opt a) = words_of a @ [[]]"
| "words_of (Rep P lo hi) = []"
| "words_of (RepLazy P lo) = []"
| "words_of (Grp i a) = words_of a"
| "words_of Eos = [[]]"

fun to_the_end :: "rx \<Rightarrow> bool" where
  "to_the_end Eos = True"
| "to_the_end (Seq a b) = (to_the_end b \<or> (b = Str [] \<and> to_the_end a))"
| "to_the_end r = False"

fun eos_free :: "rx \<Rightarrow> bool" where
  "eos_free Eos = False"
| "eos_free (Seq a b) = (eos_free a \<and> eos_free b)"
| "eos_free (Alt a b) = (eos_free a \<and> eos_free b)"
| "eos_free (Opt a) = eos_free a"
| "eos_free (Grp i a) = eos_free a"
| "eos_free r = True"

section \<open>Histories\<close>

text \<open>
  What one chat turn may do to the history: leave it, or append the user's message, or
  append the user's message and one reply of the assistant, keeping the last 50 entries.
\<close>

definition turn_history :: "string \<Rightarrow> Message list \<Rightarrow> Message list \<Rightarrow> bool" where
  "turn_history m h h' =
     (h' = h
      \<or> h' = slice_last 50 (h @ [\<lparr>role = User, content = m\<rparr>])
      \<or> (\<exists>x. h' = slice_last 50 (h @ [\<lparr>role = User, content = m\<rparr>,
                                         \<lparr>role = Assistant, content = x\<rparr>])))"





section \<open>States of the pending action\<close>

text \<open>
  The third test of \<open>processChat\<close> on a pending action,
  \<open>pending.args.message === '' && pending.tool === 'send_imessage'\<close>: the message to
  send is still missing.  A pending action that lacks nothing awaits its confirmation.
\<close>

definition needs_message :: "PendingAction \<Rightarrow> bool" where
  "needs_message pending =
     (json_member (JObj (pa_args pending)) ''message'' = JStr [] \<and> pa_tool pending = send_imessage)"

datatype pending_state = IDLE | AWAITING_CONFIRMATION | AWAITING_CLARIFICATION

definition pending_state_of :: "SystemState \<Rightarrow> pending_state" where
  "pending_state_of st =
     (case pendingAction st of
        None \<Rightarrow> IDLE
      | Some pending \<Rightarrow> if needs_message pending then AWAITING_CLARIFICATION
                        else AWAITING_CONFIRMATION)"

definition asking_state :: SystemState where
  "asking_state =
     (initialState 0)\<lparr>
        history := [\<lparr>role = User, content = ''text John''\<rparr>],
        pendingAction := Some \<lparr>pa_tool = send_imessage,
                               pa_args = [(''to'', JStr ''5551234567''), (''message'', JStr [])],
                               pa_context = ''John: (555) 123-4567'',
                               originalRequest = ''text John''\<rparr>\<rparr>"

text \<open>The sample world with the completion service answering status 500.\<close>

definition failing_env :: "nat env" where
  "failing_env = sample_env\<lparr>fetch_completion := (\<lambda>w p ms. (CompletionStatus 500, w))\<rparr>"

text \<open>Two completions: prose followed by a block whose body is not JSON.\<close>

definition bad_block :: "string \<Rightarrow> string" where
  "bad_block kind = ''Reminder set.'' @ nl @ ''```'' @ kind @ nl @ ''{oops'' @ nl @ ''```''"

section \<open>The first run of an expression\<close>

text \<open>The run a backtracking matcher finds first, if there is one.\<close>

definition rx_first :: "bool \<Rightarrow> rx \<Rightarrow> string \<times> captures \<Rightarrow> (string \<times> captures) option" where
  "rx_first ic r x = (case rx_run ic r x of [] \<Rightarrow> None | y # _ \<Rightarrow> Some y)"

text \<open>A property of a text and of all that is left of it after dropping characters.\<close>

fun at_every_position :: "(string \<Rightarrow> bool) \<Rightarrow> string \<Rightarrow> bool" where
  "at_every_position P [] = P []"
| "at_every_position P (x # xs) = (P (x # xs) \<and> at_every_position P xs)"

section \<open>The answer of the execution agent\<close>

text \<open>What \<open>callBridge\<close> returns for each way its request can end.\<close>

definition bridge_answer :: "bridge_outcome \<Rightarrow> bridge_result" where
  "bridge_answer out =
     (case out of
        BridgeReply r \<Rightarrow> r
      | BridgeTimeout \<Rightarrow>
          \<lparr>success = False, result = None, error = Some ''Timeout'', image = None\<rparr>
      | BridgeUnreachable \<Rightarrow>
          \<lparr>success = False, result = None, error = Some ''Bridge unreachable'', image = None\<rparr>)"

text \<open>
  Surroundings whose execution agent delivers the message of the sample state, which
  takes 100 ms of the clock, and is unreachable for any other call.
\<close>

definition delivering_env :: "nat env" where
  "delivering_env =
     sample_env\<lparr>fetch_execute := (\<lambda>w t args.
        if t = JStr send_imessage
           \<and> args = JObj [(''to'', JStr ''5551234567''), (''message'', JStr ''hi'')]
        then (BridgeReply \<lparr>success = True, result = Some ''delivered'', error = None,
                           image = None\<rparr>, w + 100)
        else (BridgeUnreachable, w))\<rparr>"

section \<open>The token comparison decides equality\<close>

lemma ucast_16_32_eq_0: "(ucast (z::16 word) :: 32 word) = 0 \<longleftrightarrow> z = 0"
proof
  assume "(ucast z :: 32 word) = 0"
  then have "(ucast (ucast z :: 32 word) :: 16 word) = ucast (0::32 word)" by simp
  then show "z = 0" by (simp add: ucast_up_ucast_id is_up)
qed simp

lemma code_unit_xor_eq_0:
  "(ucast (x::16 word) XOR ucast (y::16 word) :: 32 word) = 0 \<longleftrightarrow> x = y"
proof -
  have "(ucast x XOR ucast y :: 32 word) = ucast (x XOR y)"
    by (simp add: unsigned_xor_eq)
  moreover have "(x XOR y) = 0 \<longleftrightarrow> x = y"
    by (metis xor.right_neutral bit.xor_left_self)
  ultimately show ?thesis by (simp add: ucast_16_32_eq_0)
qed

text \<open>
  The loop invariant: from index \<open>i\<close> on, the accumulator ends at zero exactly when it
  is zero now and the two texts agree on every remaining code unit.
\<close>

lemma timingSafeEqual_loop_zero:
  "length a = length b \<Longrightarrow>
   timingSafeEqual_loop a b i m = 0 \<longleftrightarrow> m = 0 \<and> drop i a = drop i b"
proof (induction a b i m rule: timingSafeEqual_loop.induct)
  case (1 a b i mismatch)
  show ?case
  proof (cases "i < length a")
    case True
    with "1.prems" have ib: "i < length b" by simp
    have da: "drop i a = a ! i # drop (Suc i) a"
      using True by (simp add: Cons_nth_drop_Suc)
    have db: "drop i b = b ! i # drop (Suc i) b"
      using ib by (simp add: Cons_nth_drop_Suc)
    from "1.IH" [OF True "1.prems"] show ?thesis
      using True
      by (subst timingSafeEqual_loop.simps) (auto simp: da db or_eq_0_iff code_unit_xor_eq_0)
  next
    case False
    with "1.prems" show ?thesis
      by (subst timingSafeEqual_loop.simps) simp
  qed
qed

text \<open>
  C10.  For all strings \<open>a\<close> and \<open>b\<close>, \<open>timingSafeEqual a b\<close> is true if and only if
  \<open>a\<close> and \<open>b\<close> are the same string: the same length and the same code units.
\<close>

theorem timingSafeEqual_iff: "timingSafeEqual a b \<longleftrightarrow> a = b"
  using timingSafeEqual_loop_zero [of a b 0 0]
  by (auto simp: timingSafeEqual_def)

section \<open>The rate limiter over one window\<close>

lemma checkRateLimit_opens:
  assumes "Date_now env (world a) = (t, w)" and "window_over (rateLimit (state a)) t"
  shows "checkRateLimit env a =
           (\<lparr>allowed = True, remaining = RATE_LIMIT - 1, resetIn = RATE_WINDOW\<rparr>,
            a\<lparr>world := w, state := (state a)\<lparr>rateLimit := Some \<lparr>count = 1, resetAt = t + RATE_WINDOW\<rparr>\<rparr>\<rparr>)"
  using assms
  by (auto simp: checkRateLimit_def now_def window_over_def RATE_LIMIT_def RATE_WINDOW_def
           split: option.splits)

lemma checkRateLimit_within:
  assumes "Date_now env (world a) = (t, w)"
    and "rateLimit (state a) = Some \<lparr>count = c, resetAt = r\<rparr>" and "t < r"
  shows "checkRateLimit env a =
           (\<lparr>allowed = (c + 1 \<le> RATE_LIMIT), remaining = max 0 (RATE_LIMIT - (c + 1)),
             resetIn = r - t\<rparr>,
            a\<lparr>world := w, state := (state a)\<lparr>rateLimit := Some \<lparr>count = c + 1, resetAt = r\<rparr>\<rparr>\<rparr>)"
  using assms
  by (auto simp: checkRateLimit_def now_def)

lemma checkRateLimit_times_within:
  assumes "clock_readings env n (world a) = ts"
    and "rateLimit (state a) = Some \<lparr>count = c, resetAt = r\<rparr>"
    and "\<forall>t \<in> set ts. t < r"
  shows "fst (checkRateLimit_times env n a) =
           map (\<lambda>(k, t). \<lparr>allowed = (c + int k + 1 \<le> RATE_LIMIT),
                           remaining = max 0 (RATE_LIMIT - (c + int k + 1)),
                           resetIn = r - t\<rparr>) (zip [0..<n] ts)
         \<and> rateLimit (state (snd (checkRateLimit_times env n a)))
             = Some \<lparr>count = c + int n, resetAt = r\<rparr>"
  using assms
proof (induction n arbitrary: a ts c)
  case 0
  then show ?case by simp
next
  case (Suc n)
  obtain t w where tw: "Date_now env (world a) = (t, w)" by (cases "Date_now env (world a)")
  with Suc.prems(1) obtain ts' where ts: "ts = t # ts'" and rest: "clock_readings env n w = ts'"
    by auto
  from Suc.prems(3) ts have t: "t < r" and all: "\<forall>t \<in> set ts'. t < r" by auto
  let ?a1 = "a\<lparr>world := w, state := (state a)\<lparr>rateLimit := Some \<lparr>count = c + 1, resetAt = r\<rparr>\<rparr>\<rparr>"
  have step: "checkRateLimit env a =
           (\<lparr>allowed = (c + 1 \<le> RATE_LIMIT), remaining = max 0 (RATE_LIMIT - (c + 1)),
             resetIn = r - t\<rparr>, ?a1)"
    by (rule checkRateLimit_within [OF tw Suc.prems(2) t])
  have IH: "fst (checkRateLimit_times env n ?a1) =
           map (\<lambda>(k, t). \<lparr>allowed = (c + 1 + int k + 1 \<le> RATE_LIMIT),
                           remaining = max 0 (RATE_LIMIT - (c + 1 + int k + 1)),
                           resetIn = r - t\<rparr>) (zip [0..<n] ts')
         \<and> rateLimit (state (snd (checkRateLimit_times env n ?a1)))
             = Some \<lparr>count = c + 1 + int n, resetAt = r\<rparr>"
    by (rule Suc.IH) (use rest all in simp_all)
  have shift: "zip [0..<Suc n] (t # ts') = (0, t) # map (\<lambda>(k, t). (Suc k, t)) (zip [0..<n] ts')"
    by (simp add: upt_conv_Cons zip_map1 [symmetric] map_Suc_upt del: upt_Suc)
  show ?case
    using IH by (simp add: step ts shift split_def o_def add_ac del: upt_Suc split: prod.splits)
qed

lemma clock_readings_length: "length (clock_readings env n w) = n"
  by (induction n arbitrary: w) (auto split: prod.splits)

lemma checkRateLimit_times_window:
  assumes opens: "window_over (rateLimit (state a)) t0"
    and reads: "clock_readings env (Suc n) (world a) = t0 # ts"
    and within: "\<forall>t \<in> set ts. t < t0 + RATE_WINDOW"
  shows "fst (checkRateLimit_times env (Suc n) a) =
           map (\<lambda>(k, t). \<lparr>allowed = (int k + 1 \<le> RATE_LIMIT),
                           remaining = max 0 (RATE_LIMIT - (int k + 1)),
                           resetIn = t0 + RATE_WINDOW - t\<rparr>) (zip [0..<Suc n] (t0 # ts))"
    and "rateLimit (state (snd (checkRateLimit_times env (Suc n) a)))
             = Some \<lparr>count = int (Suc n), resetAt = t0 + RATE_WINDOW\<rparr>"
proof -
  obtain w where tw: "Date_now env (world a) = (t0, w)" and rest: "clock_readings env n w = ts"
    using reads by (cases "Date_now env (world a)") auto
  let ?a1 = "a\<lparr>world := w, state := (state a)\<lparr>rateLimit := Some \<lparr>count = 1, resetAt = t0 + RATE_WINDOW\<rparr>\<rparr>\<rparr>"
  have first: "checkRateLimit env a =
      (\<lparr>allowed = True, remaining = RATE_LIMIT - 1, resetIn = RATE_WINDOW\<rparr>, ?a1)"
    by (rule checkRateLimit_opens [OF tw opens])
  have later: "fst (checkRateLimit_times env n ?a1) =
           map (\<lambda>(k, t). \<lparr>allowed = (1 + int k + 1 \<le> RATE_LIMIT),
                           remaining = max 0 (RATE_LIMIT - (1 + int k + 1)),
                           resetIn = t0 + RATE_WINDOW - t\<rparr>) (zip [0..<n] ts)
         \<and> rateLimit (state (snd (checkRateLimit_times env n ?a1)))
             = Some \<lparr>count = 1 + int n, resetAt = t0 + RATE_WINDOW\<rparr>"
    by (rule checkRateLimit_times_within) (use rest within in simp_all)
  have shift: "zip [0..<Suc n] (t0 # ts) = (0, t0) # map (\<lambda>(k, t). (Suc k, t)) (zip [0..<n] ts)"
    by (simp add: upt_conv_Cons zip_map1 [symmetric] map_Suc_upt del: upt_Suc)
  show "fst (checkRateLimit_times env (Suc n) a) =
           map (\<lambda>(k, t). \<lparr>allowed = (int k + 1 \<le> RATE_LIMIT),
                           remaining = max 0 (RATE_LIMIT - (int k + 1)),
                           resetIn = t0 + RATE_WINDOW - t\<rparr>) (zip [0..<Suc n] (t0 # ts))"
    using later
    by (simp add: first shift split_def o_def add_ac RATE_LIMIT_def RATE_WINDOW_def del: upt_Suc split: prod.splits)
  show "rateLimit (state (snd (checkRateLimit_times env (Suc n) a)))
             = Some \<lparr>count = int (Suc n), resetAt = t0 + RATE_WINDOW\<rparr>"
    using later by (simp add: first split_def)
qed

text \<open>
  C3.  Let a call to the rate-limit check at time \<open>t0\<close> open a window (no window yet, or
  \<open>t0\<close> at or after \<open>resetAt\<close>), and let the following calls all read the clock before
  \<open>t0 + 60 s\<close>.  Then the call number \<open>k + 1\<close> reports \<open>allowed\<close> exactly when
  \<open>k + 1 \<le> 60\<close>, so the first 60 calls are allowed and the 61st is not; it reports
  \<open>remaining = max 0 (60 - (k + 1))\<close> and the time left until \<open>resetAt\<close>.  The opening call
  reports \<open>allowed\<close> and leaves \<open>count = 1\<close> with \<open>resetAt = t0 + 60 s\<close>, and after
  \<open>n + 1\<close> calls the count is \<open>n + 1\<close>.
\<close>

theorem rate_limit_window:
  assumes opens: "window_over (rateLimit (state a)) t0"
    and reads: "clock_readings env (Suc n) (world a) = t0 # ts"
    and within: "\<forall>t \<in> set ts. t < t0 + RATE_WINDOW"
  shows "length (fst (checkRateLimit_times env (Suc n) a)) = Suc n
       \<and> (\<forall>k \<le> n. allowed (fst (checkRateLimit_times env (Suc n) a) ! k) = (k < 60)
                \<and> remaining (fst (checkRateLimit_times env (Suc n) a) ! k)
                    = max 0 (RATE_LIMIT - (int k + 1))
                \<and> resetIn (fst (checkRateLimit_times env (Suc n) a) ! k)
                    = t0 + RATE_WINDOW - (t0 # ts) ! k)
       \<and> (60 \<le> n \<longrightarrow> \<not> allowed (fst (checkRateLimit_times env (Suc n) a) ! 60))
       \<and> allowed (fst (checkRateLimit_times env (Suc n) a) ! 0)
       \<and> rateLimit (state (snd (checkRateLimit_times env 1 a)))
            = Some \<lparr>count = 1, resetAt = t0 + RATE_WINDOW\<rparr>
       \<and> rateLimit (state (snd (checkRateLimit_times env (Suc n) a)))
            = Some \<lparr>count = int (Suc n), resetAt = t0 + RATE_WINDOW\<rparr>"
proof -
  have len: "length ts = n"
    using clock_readings_length [of env "Suc n" "world a"] reads by simp
  note eq = checkRateLimit_times_window(1) [OF opens reads within]
  note fin = checkRateLimit_times_window(2) [OF opens reads within]
  have reads1: "clock_readings env (Suc 0) (world a) = t0 # []"
    using reads by (auto split: prod.splits)
  have one: "rateLimit (state (snd (checkRateLimit_times env 1 a)))
            = Some \<lparr>count = 1, resetAt = t0 + RATE_WINDOW\<rparr>"
    using checkRateLimit_times_window(2) [OF opens reads1] by simp
  have nth: "\<And>k. k \<le> n \<Longrightarrow> fst (checkRateLimit_times env (Suc n) a) ! k =
       \<lparr>allowed = (int k + 1 \<le> RATE_LIMIT), remaining = max 0 (RATE_LIMIT - (int k + 1)),
        resetIn = t0 + RATE_WINDOW - (t0 # ts) ! k\<rparr>"
    unfolding eq using len by (simp del: upt_Suc)
  show ?thesis
    using len one fin by (auto simp: nth eq RATE_LIMIT_def simp del: upt_Suc checkRateLimit_times.simps)
qed

lemma sample_readings: "clock_readings sample_env (Suc 60) (world limited) = 1000 # map int [1001..<1061]"
  by code_simp
lemma sample_readings_within: "\<forall>t \<in> set (map int [1001..<1061]). t < 1000 + RATE_WINDOW"
  by (auto simp: RATE_WINDOW_def)
lemma sample_window_over: "window_over (rateLimit (state limited)) 1000"
  by (simp add: window_over_def limited_def sample_agent_def)

theorem rate_limit_window_witness:
  "allowed (fst (checkRateLimit_times sample_env 61 limited) ! 59)
   \<and> remaining (fst (checkRateLimit_times sample_env 61 limited) ! 59) = 0
   \<and> resetIn (fst (checkRateLimit_times sample_env 61 limited) ! 59) = 59941
   \<and> \<not> allowed (fst (checkRateLimit_times sample_env 61 limited) ! 60)
   \<and> rateLimit (state (snd (checkRateLimit_times sample_env 61 limited)))
       = Some \<lparr>count = 61, resetAt = 61000\<rparr>"
proof -
  note th = rate_limit_window [OF sample_window_over sample_readings sample_readings_within]
  from th have all: "\<And>k. k \<le> 60 \<Longrightarrow>
       allowed (fst (checkRateLimit_times sample_env (Suc 60) limited) ! k) = (k < 60)
     \<and> remaining (fst (checkRateLimit_times sample_env (Suc 60) limited) ! k)
          = max 0 (RATE_LIMIT - (int k + 1))
     \<and> resetIn (fst (checkRateLimit_times sample_env (Suc 60) limited) ! k)
          = 1000 + RATE_WINDOW - (1000 # map int [1001..<1061]) ! k"
    by blast
  have n59: "(1000 # map int [1001..<1061]) ! 59 = 1059" by code_simp
  have s61: "(61::nat) = Suc 60" by simp
  from th have fin: "rateLimit (state (snd (checkRateLimit_times sample_env (Suc 60) limited)))
       = Some \<lparr>count = int (Suc 60), resetAt = 1000 + RATE_WINDOW\<rparr>" by blast
  show ?thesis
    unfolding s61 using all [of 59] all [of 60] fin n59
    by (simp add: RATE_WINDOW_def RATE_LIMIT_def del: checkRateLimit_times.simps upt_Suc)
qed

section \<open>Reset\<close>

lemma reset_not_health: "endsWith p ''/reset'' \<Longrightarrow> \<not> endsWith p ''/health''"
  by (cases "rev p") (auto simp: endsWith_def)

lemma startsWith_Cons2:
  "startsWith s (x # y # ps) \<Longrightarrow> \<exists>r. s = x # y # r"
  by (cases s; cases "tl s") auto

lemma reset_not_chat: "endsWith p ''/reset'' \<Longrightarrow> \<not> endsWith p ''/chat''"
  by (auto simp: endsWith_def dest!: startsWith_Cons2)

lemma now_state [simp]: "state (snd (now env a)) = state a"
  and now_trace [simp]: "trace (snd (now env a)) = trace a"
  and now_connections [simp]: "connections (snd (now env a)) = connections a"
  by (simp_all add: now_def split_def Let_def)

lemma checkRateLimit_fields:
  "history (state (snd (checkRateLimit env a))) = history (state a)"
  "preferences (state (snd (checkRateLimit env a))) = preferences (state a)"
  "pendingAction (state (snd (checkRateLimit env a))) = pendingAction (state a)"
  "scheduleRegistry (state (snd (checkRateLimit env a))) = scheduleRegistry (state a)"
  "lastActive (state (snd (checkRateLimit env a))) = lastActive (state a)"
  "trace (snd (checkRateLimit env a)) = trace a"
  "connections (snd (checkRateLimit env a)) = connections a"
  by (simp_all add: checkRateLimit_def now_def split_def Let_def)

lemma reset_request:
  assumes p: "endsWith (req_path req) ''/reset''" and m: "req_method req = ''POST''"
    and ok: "allowed (fst (checkRateLimit env a))"
  shows "fst (onRequest env req a) = json_response 200 (SuccessBody (Some ''History cleared, preferences kept''))"
    and "state (snd (onRequest env req a)) =
           \<lparr>history = [], preferences = preferences (state a),
            lastActive = fst (now env (snd (checkRateLimit env a))),
            pendingAction = None, rateLimit = None, scheduleRegistry = []\<rparr>"
    and "trace (snd (onRequest env req a)) = trace a"
  using reset_not_health [OF p] reset_not_chat [OF p] p m ok
  by (simp_all add: onRequest_def split_def Let_def initialState_def checkRateLimit_fields)

lemma reset_admitted_after_reset:
  "rateLimit (state a) = None \<Longrightarrow> allowed (fst (checkRateLimit env a))"
  by (simp add: checkRateLimit_def split_def Let_def RATE_LIMIT_def)

text \<open>
  C9, as amended.  Whenever the rate-limit check admits the request, \<open>POST /reset\<close>
  clears the history, the pending action and the schedule registry and leaves the
  preferences as they were; a second \<open>/reset\<close> right after the first is admitted too
  and gives the same state again, up to the time stamp \<open>lastActive\<close>.
\<close>

theorem reset_clears_keeps_preferences:
  assumes p: "endsWith (req_path req) ''/reset''" and m: "req_method req = ''POST''"
    and ok: "allowed (fst (checkRateLimit env a))"
  shows "history (state (snd (onRequest env req a))) = []
       \<and> pendingAction (state (snd (onRequest env req a))) = None
       \<and> scheduleRegistry (state (snd (onRequest env req a))) = []
       \<and> preferences (state (snd (onRequest env req a))) = preferences (state a)
       \<and> status (fst (onRequest env req a)) = 200
       \<and> status (fst (onRequest env req (snd (onRequest env req a)))) = 200
       \<and> (state (snd (onRequest env req (snd (onRequest env req a)))))
            \<lparr>lastActive := lastActive (state (snd (onRequest env req a)))\<rparr>
          = state (snd (onRequest env req a))"
proof -
  let ?a1 = "snd (onRequest env req a)"
  note one = reset_request [OF p m ok]
  have ok2: "allowed (fst (checkRateLimit env ?a1))"
    by (rule reset_admitted_after_reset) (simp add: one(2))
  note two = reset_request [OF p m ok2]
  show ?thesis
    by (simp add: one two json_response_def)
qed


theorem reset_clears_keeps_preferences_witness:
  "history (state (snd (onRequest sample_env (post ''/reset'') (sample_agent busy_state 1000)))) = []
   \<and> pendingAction (state (snd (onRequest sample_env (post ''/reset'') (sample_agent busy_state 1000)))) = None
   \<and> scheduleRegistry (state (snd (onRequest sample_env (post ''/reset'') (sample_agent busy_state 1000)))) = []
   \<and> preferences (state (snd (onRequest sample_env (post ''/reset'') (sample_agent busy_state 1000))))
       = [(''wife'', JStr ''Ann'')]"
proof -
  have p: "endsWith (req_path (post ''/reset'')) ''/reset''" by (simp add: post_def endsWith_def)
  have m: "req_method (post ''/reset'') = ''POST''" by (simp add: post_def)
  have ok: "allowed (fst (checkRateLimit sample_env (sample_agent busy_state 1000)))"
    by (simp add: checkRateLimit_def now_def sample_env_def sample_agent_def busy_state_def RATE_LIMIT_def)
  show ?thesis
    using reset_clears_keeps_preferences [OF p m ok]
    by (simp add: sample_agent_def busy_state_def)
qed

text \<open>
  A request that the rate limiter turns away is answered with status 429 before the
  reset is reached: history and pending action stay.
\<close>

theorem reset_throttled_counterexample:
  "status (fst (onRequest sample_env (post ''/reset'') (sample_agent throttled_state 1000))) = 429
   \<and> history (state (snd (onRequest sample_env (post ''/reset'') (sample_agent throttled_state 1000))))
       = [\<lparr>role = User, content = ''find John''\<rparr>]
   \<and> pendingAction (state (snd (onRequest sample_env (post ''/reset'') (sample_agent throttled_state 1000))))
       \<noteq> None"
  by (simp add: onRequest_def post_def endsWith_def checkRateLimit_def now_def sample_env_def
        sample_agent_def throttled_state_def busy_state_def RATE_LIMIT_def RATE_WINDOW_def)

section \<open>Rate limiting of chat requests\<close>

text \<open>
  Over HTTP the check comes first: a chat request that it turns away gets status 429,
  and neither a service is called nor the history or the pending action touched.
\<close>

lemma chat_not_health: "endsWith p ''/chat'' \<Longrightarrow> \<not> endsWith p ''/health''"
  by (auto simp: endsWith_def dest!: startsWith_Cons2)

lemma http_chat_throttled:
  assumes p: "endsWith (req_path req) ''/chat''" and m: "req_method req = ''POST''"
    and no: "\<not> allowed (fst (checkRateLimit env a))"
  shows "status (fst (onRequest env req a)) = 429
       \<and> body (fst (onRequest env req a)) = ErrorBody ''Rate limit exceeded''
       \<and> trace (snd (onRequest env req a)) = trace a
       \<and> history (state (snd (onRequest env req a))) = history (state a)
       \<and> pendingAction (state (snd (onRequest env req a))) = pendingAction (state a)"
  using chat_not_health [OF p] m no
  by (simp add: onRequest_def split_def Let_def checkRateLimit_fields)

text \<open>
  C4.  The claim asks for the rate-limit check on every transport.  \<open>onMessage\<close> does
  not make it: with the window full, the same agent that answers an HTTP chat with 429
  processes a chat from the real-time channel, calls the completion service, and leaves
  the counter of the window where it was.
\<close>

theorem socket_chat_not_rate_limited:
  "\<not> allowed (fst (checkRateLimit sample_env (sample_agent throttled_state 1000)))
   \<and> status (fst (onRequest sample_env (post ''/chat'') (sample_agent throttled_state 1000))) = 429
   \<and> trace (snd (onRequest sample_env (post ''/chat'') (sample_agent throttled_state 1000))) = []
   \<and> rateLimit (state (onMessage sample_env ''c1'' (ChatMsg ''secret'' ''hello'')
                         (sample_agent throttled_state 1000)))
       = Some \<lparr>count = 60, resetAt = 61000\<rparr>
   \<and> trace (onMessage sample_env ''c1'' (ChatMsg ''secret'' ''hello'')
              (sample_agent throttled_state 1000))
       = [ToolsCall,
          CompletionCall ''You are SYSTEM''
            [\<lparr>role = User, content = ''find John''\<rparr>, \<lparr>role = User, content = ''hello''\<rparr>],
          SendCall ''c1''
            \<lparr>ws_type = Chat,
             payload = ChatPayload \<lparr>cr_message = ''Hello'', cr_action = None,
                                    cr_actions = Some [], cr_scheduled = None\<rparr>,
             timestamp = ''T''\<rparr>]"
  by code_simp

section \<open>The confirmation and cancellation grammars\<close>

text \<open>
  A run of an expression without classes consumes a text that is, in lower case, one of
  its words, and every such text has a run.
\<close>

lemma toLowerCase_append [simp]: "toLowerCase (u @ v) = toLowerCase u @ toLowerCase v"
  by (simp add: toLowerCase_def)

lemma toLowerCase_length [simp]: "length (toLowerCase u) = length u"
  by (simp add: toLowerCase_def)

lemma matchStr_Some:
  "matchStr True ps s = Some r \<Longrightarrow> \<exists>u. s = u @ r \<and> toLowerCase u = toLowerCase ps"
proof (induction ps arbitrary: s)
  case Nil
  then show ?case by (simp add: toLowerCase_def)
next
  case (Cons p ps)
  from Cons.prems obtain c cs where s: "s = c # cs" by (cases s) auto
  with Cons.prems have same: "sameChar True p c" and rest: "matchStr True ps cs = Some r"
    by (auto split: if_splits)
  from Cons.IH [OF rest] obtain u where "cs = u @ r" "toLowerCase u = toLowerCase ps" by blast
  with same s have "s = (c # u) @ r \<and> toLowerCase (c # u) = toLowerCase (p # ps)"
    by (simp add: toLowerCase_def sameChar_def)
  then show ?case by blast
qed

lemma matchStr_complete:
  "toLowerCase u = toLowerCase ps \<Longrightarrow> matchStr True ps (u @ r) = Some r"
proof (induction ps arbitrary: u)
  case Nil
  then show ?case by (simp add: toLowerCase_def)
next
  case (Cons p ps)
  then obtain c cs where "u = c # cs" by (cases u) (auto simp: toLowerCase_def)
  with Cons show ?case by (auto simp: toLowerCase_def sameChar_def)
qed

lemma rx_run_words:
  "plain r \<Longrightarrow> (r', c') \<in> set (rx_run True r (s, c))
     \<Longrightarrow> \<exists>u. s = u @ r' \<and> toLowerCase u \<in> set (words_of r)"
proof (induction r arbitrary: s c r' c')
  case (Chr p)
  then show ?case
    by (cases s) (auto simp: sameChar_def toLowerCase_def split: if_splits)
next
  case (Str ps)
  then show ?case by (auto split: option.splits dest: matchStr_Some [OF sym] matchStr_Some)
next
  case (Seq a b)
  from Seq.prems obtain y where y: "y \<in> set (rx_run True a (s, c))"
    and z: "(r', c') \<in> set (rx_run True b y)" by auto
  obtain m cm where ym: "y = (m, cm)" by (cases y)
  from Seq.IH(1) [of m cm s c] Seq.prems(1) y ym
  obtain u where u: "s = u @ m" "toLowerCase u \<in> set (words_of a)" by auto
  from Seq.IH(2) [of r' c' m cm] Seq.prems(1) z ym
  obtain v where v: "m = v @ r'" "toLowerCase v \<in> set (words_of b)" by auto
  from u v have "s = (u @ v) @ r' \<and> toLowerCase (u @ v) \<in> set (words_of (Seq a b))"
    by auto
  then show ?case by blast
next
  case (Alt a b)
  then show ?case by auto blast+
next
  case (Opt a)
  then show ?case by (auto simp: toLowerCase_def) blast
next
  case (Grp i a)
  then show ?case by auto
next
  case Eos
  then show ?case by (auto simp: toLowerCase_def split: if_splits)
qed simp_all

lemma rx_run_to_the_end:
  "to_the_end r \<Longrightarrow> (r', c') \<in> set (rx_run ic r x) \<Longrightarrow> r' = []"
proof (induction r arbitrary: x r' c')
  case (Seq a b)
  from Seq.prems(2) obtain y where y: "y \<in> set (rx_run ic a x)"
    and z: "(r', c') \<in> set (rx_run ic b y)" by auto
  show ?case
  proof (cases "to_the_end b")
    case True
    with Seq.IH(2) z show ?thesis by blast
  next
    case False
    with Seq.prems(1) have b: "b = Str []" and a: "to_the_end a" by auto
    obtain m cm where ym: "y = (m, cm)" by (cases y)
    from z b ym have "r' = m" by simp
    with Seq.IH(1) [OF a] y ym show ?thesis by blast
  qed
next
  case Eos
  then show ?case by (cases x) (auto split: if_splits)
qed simp_all

lemma rx_run_words_complete:
  "plain r \<Longrightarrow> eos_free r \<Longrightarrow> toLowerCase u \<in> set (words_of r)
     \<Longrightarrow> \<exists>c'. (r', c') \<in> set (rx_run True r (u @ r', c))"
proof (induction r arbitrary: u r' c)
  case (Chr p)
  then obtain x where "u = [x]" "lowerChar x = lowerChar p"
    by (cases u) (auto simp: toLowerCase_def)
  then show ?case by (simp add: sameChar_def)
next
  case (Str ps)
  then show ?case by (simp add: matchStr_complete)
next
  case (Seq a b)
  from Seq.prems(3) obtain w1 w2 where w: "toLowerCase u = w1 @ w2"
    "w1 \<in> set (words_of a)" "w2 \<in> set (words_of b)" by auto
  define u1 where "u1 = take (length w1) u"
  define u2 where "u2 = drop (length w1) u"
  have u: "u = u1 @ u2" by (simp add: u1_def u2_def)
  have "toLowerCase u1 = take (length w1) (toLowerCase u)"
    by (simp add: u1_def toLowerCase_def take_map)
  with w have l1: "toLowerCase u1 = w1" by simp
  have "toLowerCase u2 = drop (length w1) (toLowerCase u)"
    by (simp add: u2_def toLowerCase_def drop_map)
  with w have l2: "toLowerCase u2 = w2" by simp
  from Seq.IH(1) [of u1 "u2 @ r'" c] Seq.prems l1 w
  obtain c1 where c1: "(u2 @ r', c1) \<in> set (rx_run True a (u1 @ u2 @ r', c))" by auto
  from Seq.IH(2) [of u2 r' c1] Seq.prems l2 w
  obtain c2 where c2: "(r', c2) \<in> set (rx_run True b (u2 @ r', c1))" by auto
  from c1 c2 have "(r', c2) \<in> set (rx_run True (Seq a b) (u @ r', c))"
    by (auto simp: u intro!: bexI [of _ "(u2 @ r', c1)"])
  then show ?case by blast
next
  case (Alt a b)
  then show ?case by auto blast+
next
  case (Opt a)
  then show ?case by (auto simp: toLowerCase_def) blast
next
  case (Grp i a)
  from Grp.IH [of u r' c] Grp.prems obtain c' where "(r', c') \<in> set (rx_run True a (u @ r', c))"
    by auto
  then show ?case by (auto intro!: bexI [of _ "(r', c')"] exI)
qed simp_all


lemma in_rx_run_Seq:
  "z \<in> set (rx_run ic (Seq a b) x) \<longleftrightarrow> (\<exists>y \<in> set (rx_run ic a x). z \<in> set (rx_run ic b y))"
  by auto

lemma rx_run_end:
  "(\<exists>z. z \<in> set (rx_run ic (Seq a (Seq Eos (Str []))) y))
     \<longleftrightarrow> (\<exists>c'. ([], c') \<in> set (rx_run ic a y))"
proof
  assume "\<exists>z. z \<in> set (rx_run ic (Seq a (Seq Eos (Str []))) y)"
  then obtain z m cm where "(m, cm) \<in> set (rx_run ic a y)"
    and "z \<in> set (rx_run ic (Seq Eos (Str [])) (m, cm))" by auto
  then have "([], cm) \<in> set (rx_run ic a y)" by (cases m) auto
  then show "\<exists>c'. ([], c') \<in> set (rx_run ic a y)" by blast
next
  assume "\<exists>c'. ([], c') \<in> set (rx_run ic a y)"
  then obtain c' where "([], c') \<in> set (rx_run ic a y)" by blast
  then have "([], c') \<in> set (rx_run ic (Seq a (Seq Eos (Str []))) y)"
    by (auto intro!: bexI [of _ "([], c')"])
  then show "\<exists>z. z \<in> set (rx_run ic (Seq a (Seq Eos (Str []))) y)" by blast
qed

lemma anchored_run:
  "rx_run ic (seqs [g, o1, o2, Eos]) x \<noteq> []
     \<longleftrightarrow> (\<exists>c'. ([], c') \<in> set (rx_run ic (Seq g (Seq o1 o2)) x))"
proof -
  have "rx_run ic (seqs [g, o1, o2, Eos]) x \<noteq> []
          \<longleftrightarrow> (\<exists>z. z \<in> set (rx_run ic (Seq g (Seq o1 (Seq o2 (Seq Eos (Str []))))) x))"
    unfolding seqs_def by (cases "rx_run ic (foldr Seq [g, o1, o2, Eos] (Str [])) x") auto
  also have "\<dots> \<longleftrightarrow> (\<exists>y1 \<in> set (rx_run ic g x). \<exists>y2 \<in> set (rx_run ic o1 y1).
                        \<exists>z. z \<in> set (rx_run ic (Seq o2 (Seq Eos (Str []))) y2))"
    by (subst in_rx_run_Seq, subst in_rx_run_Seq) blast
  also have "\<dots> \<longleftrightarrow> (\<exists>y1 \<in> set (rx_run ic g x). \<exists>y2 \<in> set (rx_run ic o1 y1).
                        \<exists>c'. ([], c') \<in> set (rx_run ic o2 y2))"
    unfolding rx_run_end ..
  also have "\<dots> \<longleftrightarrow> (\<exists>c'. ([], c') \<in> set (rx_run ic (Seq g (Seq o1 o2)) x))"
    unfolding in_rx_run_Seq by blast
  finally show ?thesis .
qed

lemma anchored_words:
  "set (words_of (seqs [g, o1, o2, Eos])) = set (words_of (Seq g (Seq o1 o2)))"
  by (auto simp: seqs_def toLowerCase_def)

lemma anchored_test_iff:
  assumes "plain g" "plain o1" "plain o2" "eos_free g" "eos_free o1" "eos_free o2"
  shows "rx_test_anchored True (seqs [g, o1, o2, Eos]) s
           \<longleftrightarrow> toLowerCase s \<in> set (words_of (seqs [g, o1, o2, Eos]))"
proof
  assume "rx_test_anchored True (seqs [g, o1, o2, Eos]) s"
  then have "rx_run True (seqs [g, o1, o2, Eos]) (s, []) \<noteq> []"
    by (auto simp: rx_test_anchored_def rx_at_def split: list.splits)
  then obtain c' where "([], c') \<in> set (rx_run True (Seq g (Seq o1 o2)) (s, []))"
    unfolding anchored_run by blast
  from rx_run_words [OF _ this] assms
  show "toLowerCase s \<in> set (words_of (seqs [g, o1, o2, Eos]))"
    unfolding anchored_words by auto
next
  assume "toLowerCase s \<in> set (words_of (seqs [g, o1, o2, Eos]))"
  then have "toLowerCase s \<in> set (words_of (Seq g (Seq o1 o2)))"
    unfolding anchored_words .
  from rx_run_words_complete [OF _ _ this, of "[]" "[]"] assms
  obtain c' where "([], c') \<in> set (rx_run True (Seq g (Seq o1 o2)) (s, []))" by auto
  then have "rx_run True (seqs [g, o1, o2, Eos]) (s, []) \<noteq> []"
    unfolding anchored_run by blast
  then show "rx_test_anchored True (seqs [g, o1, o2, Eos]) s"
    by (auto simp: rx_test_anchored_def rx_at_def split: list.splits)
qed


text \<open>
  So a message is a confirmation exactly when, trimmed and in lower case, it is one of
  the words of the expression, each with an optional full stop and an optional
  exclamation mark after it; likewise for a cancellation, and no message is both.
\<close>

lemma isConfirmation_words:
  "isConfirmation m \<longleftrightarrow> toLowerCase (trim m) \<in> set (words_of confirmation_rx)"
  unfolding isConfirmation_def confirmation_rx_def
  by (rule anchored_test_iff) (simp_all add: alts_def)

lemma isCancellation_words:
  "isCancellation m \<longleftrightarrow> toLowerCase (trim m) \<in> set (words_of cancellation_rx)"
  unfolding isCancellation_def cancellation_rx_def
  by (rule anchored_test_iff) (simp_all add: alts_def)

lemma grammars_apart:
  "list_all (\<lambda>w. w \<notin> set (words_of cancellation_rx)) (words_of confirmation_rx)"
  by code_simp

lemma cancellation_not_confirmation: "isCancellation m \<Longrightarrow> \<not> isConfirmation m"
  using grammars_apart
  unfolding isConfirmation_words isCancellation_words list_all_iff by blast

lemma confirmation_words:
  "words_of confirmation_rx =
     concat (map (\<lambda>w. [w @ ''.!'', w @ ''.'', w @ ''!'', w])
       [''yes'', ''yeah'', ''yep'', ''yup'', ''sure'', ''ok'', ''okay'', ''do it'', ''send it'',
        ''confirm'', ''go ahead'', ''please'', ''y''])"
  by code_simp

lemma cancellation_words:
  "words_of cancellation_rx =
     concat (map (\<lambda>w. [w @ ''.!'', w @ ''.'', w @ ''!'', w])
       [''no'', ''nope'', ''cancel'', ''stop'', ''don'' @ [CHR 0x27] @ ''t'', ''nevermind'',
        ''never mind'', ''abort'', ''n''])"
  by code_simp

section \<open>What a chat turn changes\<close>

text \<open>
  The calls to the services change the world and the trace and leave the state alone;
  parsing a response touches the preferences only, scheduling the registry only.
\<close>

lemma callBridge_frame [simp]:
  "state (snd (callBridge env t args a)) = state a"
  "trace (snd (callBridge env t args a)) = trace a @ [ExecuteCall t args]"
  "connections (snd (callBridge env t args a)) = connections a"
  by (simp_all add: callBridge_def split_def Let_def)

lemma callClaude_frame [simp]:
  "state (snd (callClaude env p ms a)) = state a"
  "trace (snd (callClaude env p ms a)) = trace a @ [CompletionCall p ms]"
  "connections (snd (callClaude env p ms a)) = connections a"
  by (simp_all add: callClaude_def split_def Let_def)

lemma fetchTools_frame [simp]:
  "state (snd (fetchTools env a)) = state a"
  "trace (snd (fetchTools env a)) = trace a @ [ToolsCall]"
  "connections (snd (fetchTools env a)) = connections a"
  by (simp_all add: fetchTools_def split_def Let_def)

lemma parseResponse_frame [simp]:
  "history (state (snd (parseResponse env r a))) = history (state a)"
  "pendingAction (state (snd (parseResponse env r a))) = pendingAction (state a)"
  "rateLimit (state (snd (parseResponse env r a))) = rateLimit (state a)"
  "scheduleRegistry (state (snd (parseResponse env r a))) = scheduleRegistry (state a)"
  "trace (snd (parseResponse env r a)) = trace a"
  by (simp_all add: parseResponse_def split_def Let_def split: option.splits)

lemma scheduleAction_frame [simp]:
  "history (state (snd (scheduleAction env sch a))) = history (state a)"
  "pendingAction (state (snd (scheduleAction env sch a))) = pendingAction (state a)"
  "rateLimit (state (snd (scheduleAction env sch a))) = rateLimit (state a)"
  by (simp_all add: scheduleAction_def split_def Let_def split: json.splits sum.splits)

lemma contact_flow_history:
  "contact_flow env m action res acc a = Some (r, a')
     \<Longrightarrow> (\<exists>e. r = Inl e \<and> history (state a') = history (state a))
       \<or> (\<exists>x. r = Inr (Returned x) \<and> turn_history m (history (state a)) (history (state a')))"
  unfolding contact_flow_def turn_history_def
  apply (auto simp: Let_def split: option.splits if_splits sum.splits prod.splits)
  apply (metis callClaude_frame(1) snd_conv)+
  done

lemma run_actions_history:
  "run_actions env m acts acc a = (r, a')
     \<Longrightarrow> turn_history m (history (state a)) (history (state a'))
         \<and> ((\<forall>x. r \<noteq> Inr (Returned x)) \<longrightarrow> history (state a') = history (state a))"
proof (induction acts arbitrary: acc a)
  case Nil
  then show ?case by (auto simp: turn_history_def)
next
  case (Cons action rest)
  let ?tool = "json_member action ''tool''"
  let ?args = "json_member action ''args''"
  obtain res a1 where cb: "callBridge env ?tool ?args a = (res, a1)"
    by (cases "callBridge env ?tool ?args a")
  then have a1: "state a1 = state a"
    using callBridge_frame(1) [of env ?tool ?args a] by simp
  let ?acc = "acc @ [\<lparr>ar_tool = ?tool, ar_args = ?args,
                      ar_result = (if success res then result res else error res),
                      ar_success = success res, ar_image = image res\<rparr>]"
  show ?case
  proof (cases "contact_flow env m action res ?acc a1")
    case None
    with Cons.prems cb have "run_actions env m rest ?acc a1 = (r, a')"
      by (simp add: Let_def)
    from Cons.IH [OF this] a1 show ?thesis by simp
  next
    case (Some out)
    with Cons.prems cb have out: "out = (r, a')" by (simp add: Let_def)
    from contact_flow_history [OF Some [unfolded out]] a1
    show ?thesis by (auto simp: turn_history_def)
  qed
qed


lemma run_actions_same:
  "history (state a) = h \<Longrightarrow> fst (run_actions env m acts acc a) = r
     \<Longrightarrow> (\<And>x. r \<noteq> Inr (Returned x))
     \<Longrightarrow> history (state (snd (run_actions env m acts acc a))) = h"
  using run_actions_history [of env m acts acc a "fst (run_actions env m acts acc a)"
          "snd (run_actions env m acts acc a)"]
  by auto

lemma turn_history_refl [simp]: "turn_history m h h"
  by (simp add: turn_history_def)

lemma turn_history_reply [simp]:
  "turn_history m h (slice_last 50 (h @ [\<lparr>role = User, content = m\<rparr>,
                                         \<lparr>role = Assistant, content = x\<rparr>]))"
  by (auto simp: turn_history_def)

lemma turn_history_user [simp]:
  "turn_history m h (slice_last 50 (h @ [\<lparr>role = User, content = m\<rparr>]))"
  using turn_history_def by force

lemma register_schedule_frame [simp]:
  "history (state (snd (register_schedule env sch a))) = history (state a)"
  "pendingAction (state (snd (register_schedule env sch a))) = pendingAction (state a)"
  "rateLimit (state (snd (register_schedule env sch a))) = rateLimit (state a)"
  by (simp_all add: register_schedule_def split_def split: sum.splits)


lemma complete_turn_thrown:
  "history (state a) = h \<Longrightarrow> fst (complete_turn env m response parsed task a) = Inl e
     \<Longrightarrow> history (state (snd (complete_turn env m response parsed task a))) = h"
  by (simp add: complete_turn_def split_def Let_def run_actions_same
           split: sum.splits loop_exit.splits)


lemma process_with_claude_thrown:
  "fst (process_with_claude env m a) = Inl e
     \<Longrightarrow> history (state (snd (process_with_claude env m a))) = history (state a)"
  by (simp add: process_with_claude_def split_def Let_def complete_turn_thrown
           split: sum.splits)


lemma processChat_thrown:
  "fst (processChat env m a) = Inl e
     \<Longrightarrow> history (state (snd (processChat env m a))) = history (state a)"
proof (cases "pendingAction (state a)")
  case None
  assume "fst (processChat env m a) = Inl e"
  with None show ?thesis by (simp add: processChat_def process_with_claude_thrown)
next
  case (Some pending)
  assume thrown: "fst (processChat env m a) = Inl e"
  let ?a = "a\<lparr>state := (state a)\<lparr>pendingAction := None\<rparr>\<rparr>"
  from thrown Some have "fst (process_with_claude env m ?a) = Inl e
      \<and> processChat env m a = process_with_claude env m ?a"
    by (auto simp: processChat_def Let_def split_def split: if_splits)
  with process_with_claude_thrown [of env m ?a e] show ?thesis by simp
qed

section \<open>The history never exceeds 50 entries\<close>


lemma slice_last_short: "length xs \<le> n \<Longrightarrow> slice_last n xs = xs"
  by (simp add: slice_last_def)


lemma sendToConnection_frame [simp]:
  "state (sendToConnection env conn msg a) = state a"
  by (simp add: sendToConnection_def split_def Let_def)

lemma broadcast_loop_frame [simp]:
  "state (broadcast_loop env msg conns a) = state a"
  by (induction conns arbitrary: a) simp_all

lemma broadcastToClients_frame [simp]:
  "state (broadcastToClients env msg a) = state a"
  by (simp add: broadcastToClients_def)


lemma ws_message_frame [simp]:
  "state (snd (ws_message env ty pl a)) = state a"
  by (simp add: ws_message_def split_def Let_def)



lemma handleExecute_frame [simp]:
  "state (snd (handleExecute env req a)) = state a"
  by (auto simp: handleExecute_def split_def Let_def split: sum.splits)






section \<open>Confirming and cancelling a pending action\<close>

lemma callBridge_outcome:
  "callBridge env t args a
     = (bridge_answer (fst (fetch_execute env (world a) t args)),
        a\<lparr>world := snd (fetch_execute env (world a) t args),
          trace := trace a @ [ExecuteCall t args]\<rparr>)"
  by (simp add: callBridge_def bridge_answer_def split_def Let_def)

text \<open>
  C2.  The state holds at most one pending action: the field is optional.  With one
  pending, a message of the confirmation grammar makes exactly one request to the
  execution agent, with the stored tool and arguments: the world afterwards is the one
  that this request leaves (and the reading of the clock that follows), the reply and
  the entry of the history report the answer to this request, \<open>Sent!\<close> or the failure.
  A message of the cancellation grammar makes no request at all: the world is the one
  that reading the clock leaves, and the answer is \<open>Cancelled.\<close>.  Either way no
  action is pending afterwards.
\<close>

theorem pending_confirmed_or_cancelled:
  assumes "pendingAction (state a) = Some pending"
  shows "(isConfirmation m \<longrightarrow>
            (let tool = JStr (pa_tool pending); args = JObj (pa_args pending);
                 res = bridge_answer (fst (fetch_execute env (world a) tool args))
             in pendingAction (state (snd (processChat env m a))) = None
              \<and> trace (snd (processChat env m a)) = trace a @ [ExecuteCall tool args]
              \<and> world (snd (processChat env m a))
                  = snd (Date_now env (snd (fetch_execute env (world a) tool args)))
              \<and> fst (callBridge env tool args a) = res
              \<and> fst (processChat env m a)
                  = Inr \<lparr>cr_message = (if success res then ''Sent!''
                                        else ''Failed: '' @ strOpt (error res)),
                         cr_action = Some \<lparr>ar_tool = tool, ar_args = args,
                                           ar_result = (if success res then result res
                                                        else error res),
                                           ar_success = success res, ar_image = None\<rparr>,
                         cr_actions = None, cr_scheduled = None\<rparr>
              \<and> history (state (snd (processChat env m a)))
                  = slice_last 50 (history (state a)
                      @ [\<lparr>role = User, content = m\<rparr>,
                         \<lparr>role = Assistant,
                          content = (if success res then ''Sent!'' else ''Failed.'')\<rparr>])))
       \<and> (isCancellation m \<longrightarrow>
            pendingAction (state (snd (processChat env m a))) = None
          \<and> trace (snd (processChat env m a)) = trace a
          \<and> world (snd (processChat env m a)) = snd (Date_now env (world a))
          \<and> fst (processChat env m a)
              = Inr \<lparr>cr_message = ''Cancelled.'', cr_action = None, cr_actions = None,
                     cr_scheduled = None\<rparr>
          \<and> history (state (snd (processChat env m a)))
              = slice_last 50 (history (state a)
                  @ [\<lparr>role = User, content = m\<rparr>,
                     \<lparr>role = Assistant, content = ''Cancelled.''\<rparr>]))"
proof (intro conjI impI)
  assume c: "isConfirmation m"
  let ?tool = "JStr (pa_tool pending)"
  let ?args = "JObj (pa_args pending)"
  let ?res = "bridge_answer (fst (fetch_execute env (world a) ?tool ?args))"
  let ?r = "processChat env m a"
  have 1: "pendingAction (state (snd ?r)) = None"
    using assms c by (simp add: processChat_def split_def Let_def)
  have 2: "trace (snd ?r) = trace a @ [ExecuteCall ?tool ?args]"
    using assms c by (simp add: processChat_def split_def Let_def)
  have 3: "world (snd ?r) = snd (Date_now env (snd (fetch_execute env (world a) ?tool ?args)))"
    using assms c by (simp add: processChat_def split_def Let_def callBridge_outcome now_def)
  have 4: "fst (callBridge env ?tool ?args a) = ?res"
    by (simp add: callBridge_outcome)
  have 5: "fst ?r
             = Inr \<lparr>cr_message = (if success ?res then ''Sent!''
                                   else ''Failed: '' @ strOpt (error ?res)),
                    cr_action = Some \<lparr>ar_tool = ?tool, ar_args = ?args,
                                      ar_result = (if success ?res then result ?res
                                                   else error ?res),
                                      ar_success = success ?res, ar_image = None\<rparr>,
                    cr_actions = None, cr_scheduled = None\<rparr>"
    using assms c by (simp add: processChat_def split_def Let_def callBridge_outcome)
  have 6: "history (state (snd ?r))
             = slice_last 50 (history (state a)
                 @ [\<lparr>role = User, content = m\<rparr>,
                    \<lparr>role = Assistant,
                     content = (if success ?res then ''Sent!'' else ''Failed.'')\<rparr>])"
    using assms c by (simp add: processChat_def split_def Let_def callBridge_outcome now_def)
  from 1 2 3 4 5 6
  show "let tool = ?tool; args = ?args;
            res = bridge_answer (fst (fetch_execute env (world a) tool args))
        in pendingAction (state (snd (processChat env m a))) = None
         \<and> trace (snd (processChat env m a)) = trace a @ [ExecuteCall tool args]
         \<and> world (snd (processChat env m a))
             = snd (Date_now env (snd (fetch_execute env (world a) tool args)))
         \<and> fst (callBridge env tool args a) = res
         \<and> fst (processChat env m a)
             = Inr \<lparr>cr_message = (if success res then ''Sent!''
                                   else ''Failed: '' @ strOpt (error res)),
                    cr_action = Some \<lparr>ar_tool = tool, ar_args = args,
                                      ar_result = (if success res then result res
                                                   else error res),
                                      ar_success = success res, ar_image = None\<rparr>,
                    cr_actions = None, cr_scheduled = None\<rparr>
         \<and> history (state (snd (processChat env m a)))
             = slice_last 50 (history (state a)
                 @ [\<lparr>role = User, content = m\<rparr>,
                    \<lparr>role = Assistant,
                     content = (if success res then ''Sent!'' else ''Failed.'')\<rparr>])"
    unfolding Let_def by blast
next
  assume c: "isCancellation m"
  then have n: "\<not> isConfirmation m" using cancellation_not_confirmation by blast
  let ?r = "processChat env m a"
  show "pendingAction (state (snd ?r)) = None"
    using assms c n by (simp add: processChat_def split_def Let_def)
  show "trace (snd ?r) = trace a"
    using assms c n by (simp add: processChat_def split_def Let_def)
  show "world (snd ?r) = snd (Date_now env (world a))"
    using assms c n by (simp add: processChat_def split_def Let_def now_def)
  show "fst ?r = Inr \<lparr>cr_message = ''Cancelled.'', cr_action = None, cr_actions = None,
                      cr_scheduled = None\<rparr>"
    using assms c n by (simp add: processChat_def split_def Let_def)
  show "history (state (snd ?r))
          = slice_last 50 (history (state a)
              @ [\<lparr>role = User, content = m\<rparr>,
                 \<lparr>role = Assistant, content = ''Cancelled.''\<rparr>])"
    using assms c n by (simp add: processChat_def split_def Let_def)
qed

theorem pending_confirmed_or_cancelled_witness:
  "isConfirmation ''Yes!'' \<and> isCancellation ''no''
   \<and> pendingAction (state (snd (processChat delivering_env ''Yes!'' (sample_agent busy_state 1000)))) = None
   \<and> trace (snd (processChat delivering_env ''Yes!'' (sample_agent busy_state 1000)))
       = [ExecuteCall (JStr ''send_imessage'')
            (JObj [(''to'', JStr ''5551234567''), (''message'', JStr ''hi'')])]
   \<and> world (snd (processChat delivering_env ''Yes!'' (sample_agent busy_state 1000))) = 1101
   \<and> fst (processChat delivering_env ''Yes!'' (sample_agent busy_state 1000))
       = Inr \<lparr>cr_message = ''Sent!'',
              cr_action = Some \<lparr>ar_tool = JStr ''send_imessage'',
                                ar_args = JObj [(''to'', JStr ''5551234567''), (''message'', JStr ''hi'')],
                                ar_result = Some ''delivered'', ar_success = True,
                                ar_image = None\<rparr>,
              cr_actions = None, cr_scheduled = None\<rparr>
   \<and> history (state (snd (processChat delivering_env ''Yes!'' (sample_agent busy_state 1000))))
       = [\<lparr>role = User, content = ''find John''\<rparr>, \<lparr>role = User, content = ''Yes!''\<rparr>,
          \<lparr>role = Assistant, content = ''Sent!''\<rparr>]
   \<and> pendingAction (state (snd (processChat delivering_env ''no'' (sample_agent busy_state 1000)))) = None
   \<and> trace (snd (processChat delivering_env ''no'' (sample_agent busy_state 1000))) = []
   \<and> world (snd (processChat delivering_env ''no'' (sample_agent busy_state 1000))) = 1001
   \<and> fst (processChat delivering_env ''no'' (sample_agent busy_state 1000))
       = Inr \<lparr>cr_message = ''Cancelled.'', cr_action = None, cr_actions = None,
              cr_scheduled = None\<rparr>"
proof -
  have p: "pendingAction (state (sample_agent busy_state 1000))
             = Some \<lparr>pa_tool = send_imessage,
                     pa_args = [(''to'', JStr ''5551234567''), (''message'', JStr ''hi'')],
                     pa_context = ''John: (555) 123-4567'',
                     originalRequest = ''find John''\<rparr>"
    by (simp add: sample_agent_def busy_state_def)
  have y: "isConfirmation ''Yes!''" by code_simp
  have n: "isCancellation ''no''" by code_simp
  from pending_confirmed_or_cancelled [OF p, of "''Yes!''" delivering_env] y
       pending_confirmed_or_cancelled [OF p, of "''no''" delivering_env] n
  show ?thesis
    by (simp add: sample_agent_def busy_state_def send_imessage_def delivering_env_def
          sample_env_def bridge_answer_def slice_last_def Let_def)
qed

section \<open>Clarifying a pending action\<close>

lemma json_member_update:
  "json_member (JObj (AList.update k v kv)) k = v"
  by (simp add: json_member_def update_conv')

text \<open>
  C8, as amended.  For every session awaiting clarification, a non-empty message that
  matches neither the confirmation nor the cancellation grammar fills the missing
  message of the pending action, which is kept and now awaits confirmation; the reply
  asks for an explicit yes or no, and nothing is executed.
\<close>

theorem clarification_fills_message:
  assumes "pending_state_of (state a) = AWAITING_CLARIFICATION"
    and "m \<noteq> []" and "\<not> isConfirmation m" and "\<not> isCancellation m"
  shows "\<exists>pending. pendingAction (state a) = Some pending
       \<and> pendingAction (state (snd (processChat env m a)))
           = Some (pending\<lparr>pa_args := AList.update ''message'' (JStr m) (pa_args pending)\<rparr>)
       \<and> json_member (JObj (AList.update ''message'' (JStr m) (pa_args pending))) ''message'' = JStr m
       \<and> pending_state_of (state (snd (processChat env m a))) = AWAITING_CONFIRMATION
       \<and> trace (snd (processChat env m a)) = trace a
       \<and> fst (processChat env m a)
           = Inr \<lparr>cr_message = ''Send '' @ dq @ m @ dq @ '' to ''
                     @ to_string (Number_toString env) (json_member (JObj (pa_args pending)) ''to'')
                     @ ''? *(yes/no)*'',
                  cr_action = None, cr_actions = None, cr_scheduled = None\<rparr>
       \<and> history (state (snd (processChat env m a)))
           = slice_last 50 (history (state a) @ [\<lparr>role = User, content = m\<rparr>])"
proof -
  from assms(1) obtain pending where p: "pendingAction (state a) = Some pending"
    and n: "needs_message pending"
    by (auto simp: pending_state_of_def split: option.splits if_splits)
  from n have n': "json_member (JObj (pa_args pending)) ''message'' = JStr []"
    "pa_tool pending = send_imessage" by (simp_all add: needs_message_def)
  have upd: "json_member (JObj (AList.update ''message'' (JStr m) (pa_args pending))) ''message'' = JStr m"
    by (rule json_member_update)
  have 1: "pendingAction (state (snd (processChat env m a)))
           = Some (pending\<lparr>pa_args := AList.update ''message'' (JStr m) (pa_args pending)\<rparr>)"
    using p n' assms by (simp add: processChat_def split_def Let_def)
  have 2: "pending_state_of (state (snd (processChat env m a))) = AWAITING_CONFIRMATION"
    using assms(2) by (simp add: pending_state_of_def 1 needs_message_def upd)
  have 3: "trace (snd (processChat env m a)) = trace a"
    using p n' assms by (simp add: processChat_def split_def Let_def)
  have 4: "fst (processChat env m a)
           = Inr \<lparr>cr_message = ''Send '' @ dq @ m @ dq @ '' to ''
                     @ to_string (Number_toString env) (json_member (JObj (pa_args pending)) ''to'')
                     @ ''? *(yes/no)*'',
                  cr_action = None, cr_actions = None, cr_scheduled = None\<rparr>"
    using p n' assms by (simp add: processChat_def split_def Let_def)
  have 5: "history (state (snd (processChat env m a)))
           = slice_last 50 (history (state a) @ [\<lparr>role = User, content = m\<rparr>])"
    using p n' assms by (simp add: processChat_def split_def Let_def)
  from p upd 1 2 3 4 5 show ?thesis by blast
qed

theorem clarification_fills_message_witness:
  "pending_state_of (state (sample_agent asking_state 1000)) = AWAITING_CLARIFICATION
   \<and> \<not> isConfirmation ''running late'' \<and> \<not> isCancellation ''running late''
   \<and> pendingAction (state (snd (processChat sample_env ''running late'' (sample_agent asking_state 1000))))
       = Some \<lparr>pa_tool = send_imessage,
               pa_args = [(''to'', JStr ''5551234567''), (''message'', JStr ''running late'')],
               pa_context = ''John: (555) 123-4567'',
               originalRequest = ''text John''\<rparr>
   \<and> pending_state_of (state (snd (processChat sample_env ''running late''
         (sample_agent asking_state 1000)))) = AWAITING_CONFIRMATION
   \<and> trace (snd (processChat sample_env ''running late'' (sample_agent asking_state 1000))) = []"
proof -
  have s: "pending_state_of (state (sample_agent asking_state 1000)) = AWAITING_CLARIFICATION"
    by (simp add: pending_state_of_def sample_agent_def asking_state_def initialState_def
          needs_message_def json_member_def)
  have c: "\<not> isConfirmation ''running late''" by code_simp
  have n: "\<not> isCancellation ''running late''" by code_simp
  have m: "''running late'' \<noteq> []" by simp
  from clarification_fills_message [OF s m c n, of sample_env] s c n
  show ?thesis
    by (auto simp: sample_agent_def asking_state_def initialState_def)
qed

text \<open>
  The two grammars are tested first, also while the message is missing: \<open>no\<close> discards
  the pending action, and \<open>yes\<close> executes it with the empty message.
\<close>

theorem clarification_yes_no_counterexample:
  "pending_state_of (state (sample_agent asking_state 1000)) = AWAITING_CLARIFICATION
   \<and> pendingAction (state (snd (processChat sample_env ''no'' (sample_agent asking_state 1000)))) = None
   \<and> pending_state_of (state (snd (processChat sample_env ''no'' (sample_agent asking_state 1000)))) = IDLE
   \<and> trace (snd (processChat sample_env ''yes'' (sample_agent asking_state 1000)))
       = [ExecuteCall (JStr ''send_imessage'')
            (JObj [(''to'', JStr ''5551234567''), (''message'', JStr [])])]
   \<and> pending_state_of (state (snd (processChat sample_env ''yes'' (sample_agent asking_state 1000)))) = IDLE"
  by code_simp

section \<open>A failing completion service\<close>

lemma callClaude_status:
  "fst (fetch_completion env (world a) p ms) = CompletionStatus n
     \<Longrightarrow> fst (callClaude env p ms a) = Inl (ApiError (''Claude API error: '' @ showNat n))"
  by (simp add: callClaude_def split_def Let_def)

lemma callClaude_failed:
  "fst (fetch_completion env (world a) p ms) = CompletionFailed x
     \<Longrightarrow> fst (callClaude env p ms a) = Inl (ApiError x)"
  by (simp add: callClaude_def split_def Let_def)

text \<open>
  With no action pending, a turn whose completion call fails throws what the call threw,
  and the state is as before the turn.
\<close>

lemma completion_failure_thrown:
  assumes "pendingAction (state a) = None"
    and "fst (callClaude env (buildSystemPrompt env (fst (fetchTools env a)) (preferences (state a)))
               (slice_last 40 (history (state a)) @ [\<lparr>role = User, content = m\<rparr>])
               (snd (fetchTools env a))) = Inl e"
  shows "fst (processChat env m a) = Inl e" and "state (snd (processChat env m a)) = state a"
  using assms
  by (simp_all add: processChat_def process_with_claude_def split_def Let_def)

text \<open>
  C7, as amended.  For every chat turn over HTTP that ends in a failure, the failure of
  the completion call among them, the handler catches what was thrown and answers with
  status 500 and the message of the error; the history is what it was before the turn.
\<close>

theorem failed_turn_caught:
  assumes "fst (processChat env m a) = Inl e" and "chat_message req = Inr m"
  shows "fst (handleChat env req a) = json_response 500 (ErrorBody (message_of e))
       \<and> snd (handleChat env req a) = snd (processChat env m a)
       \<and> history (state (snd (handleChat env req a))) = history (state a)
       \<and> history (state (snd (processChat env m a))) = history (state a)"
  using assms processChat_thrown [OF assms(1)]
  by (simp add: handleChat_def split_def)

theorem failed_turn_caught_witness:
  "fst (processChat failing_env ''hello'' (sample_agent (initialState 0) 1000))
     = Inl (ApiError ''Claude API error: 500'')
   \<and> fst (handleChat failing_env (post ''/chat'') (sample_agent (initialState 0) 1000))
       = \<lparr>status = 500, headers = [], body = ErrorBody ''Claude API error: 500''\<rparr>
   \<and> history (state (snd (handleChat failing_env (post ''/chat'') (sample_agent (initialState 0) 1000))))
       = []"
proof -
  have t: "fst (processChat failing_env ''hello'' (sample_agent (initialState 0) 1000))
             = Inl (ApiError ''Claude API error: 500'')"
    by code_simp
  have c: "chat_message (post ''/chat'') = Inr ''hello''" by (simp add: post_def)
  from failed_turn_caught [OF t c] t
  show ?thesis
    by (simp add: json_response_def message_of_def sample_agent_def initialState_def)
qed

text \<open>
  The user's message of a failed turn is not in the history afterwards.
\<close>

theorem failed_turn_history_counterexample:
  "fst (onRequest failing_env (post ''/chat'') (sample_agent (initialState 0) 1000))
     = \<lparr>status = 500, headers = [], body = ErrorBody ''Claude API error: 500''\<rparr>
   \<and> history (state (snd (onRequest failing_env (post ''/chat'') (sample_agent (initialState 0) 1000))))
       = []
   \<and> \<lparr>role = User, content = ''hello''\<rparr>
       \<notin> set (history (state (snd (onRequest failing_env (post ''/chat'')
                                      (sample_agent (initialState 0) 1000)))))"
  by code_simp

section \<open>Malformed directive blocks\<close>

text \<open>
  The actions returned are those of the blocks that parse and name a tool: a block that
  does not parse is left out and the others are kept.
\<close>

lemma parse_actions_append:
  "parse_actions parse (xs @ ys) = parse_actions parse xs @ parse_actions parse ys"
  by (simp add: parse_actions_def)

lemma malformed_action_dropped:
  "parse b = None
     \<Longrightarrow> parse_actions parse (xs @ b # ys) = parse_actions parse xs @ parse_actions parse ys"
  by (simp add: parse_actions_def)

lemma parseResponse_actions:
  "p_actions (fst (parseResponse env completion a))
     = parse_actions (JSON_parse env) (action_blocks completion)"
  by (simp add: parseResponse_def split_def Let_def)

text \<open>
  C6.  The claim asks for a display text with the directive blocks stripped, whatever
  is in them.  An action block that does not parse is removed from the text, but a
  schedule or preference block that does not parse stays in it: the removal of those
  comes after \<open>JSON.parse\<close> inside the same \<open>try\<close>.
\<close>

theorem malformed_schedule_block_stays:
  "JSON_parse sample_env ''{oops'' = None
   \<and> p_text (fst (parseResponse sample_env (bad_block ''action'') (sample_agent (initialState 0) 0)))
       = ''Reminder set.''
   \<and> p_text (fst (parseResponse sample_env (bad_block ''schedule'') (sample_agent (initialState 0) 0)))
       = ''Reminder set.'' @ nl @ ''```schedule'' @ nl @ ''{oops'' @ nl @ ''```''
   \<and> p_schedule (fst (parseResponse sample_env (bad_block ''schedule'') (sample_agent (initialState 0) 0)))
       = JUndefined
   \<and> p_text (fst (parseResponse sample_env (bad_block ''preference'') (sample_agent (initialState 0) 0)))
       = ''Reminder set.'' @ nl @ ''```preference'' @ nl @ ''{oops'' @ nl @ ''```''"
  by code_simp

section \<open>The forms of the temporal parser\<close>

text \<open>Where a search finds nothing, and what it finds at the start of the text.\<close>

lemma rx_at_first:
  "rx_at ic r s i =
     (case rx_first ic r (drop i s, []) of
        None \<Rightarrow> None
      | Some (rest, c) \<Rightarrow> Some \<lparr>m_index = i, m_length = length s - i - length rest, m_caps = c\<rparr>)"
  by (simp add: rx_at_def rx_first_def split: list.splits)

lemma rx_scan_None:
  "(\<And>j. i \<le> j \<Longrightarrow> j \<le> i + n \<Longrightarrow> rx_at ic r s j = None) \<Longrightarrow> rx_scan ic r s i n = None"
proof (induction n arbitrary: i)
  case 0
  then show ?case by simp
next
  case (Suc n)
  have "rx_at ic r s i = None" by (rule Suc.prems) simp_all
  moreover have "rx_scan ic r s (Suc i) n = None"
    by (rule Suc.IH) (rule Suc.prems, simp_all)
  ultimately show ?case by simp
qed

lemma rx_exec_None:
  "(\<And>j. j \<le> length s \<Longrightarrow> rx_first ic r (drop j s, []) = None) \<Longrightarrow> rx_exec ic r s = None"
  unfolding rx_exec_def by (rule rx_scan_None) (simp add: rx_at_first)

lemma rx_exec_start:
  "rx_first ic r (s, []) = Some (rest, c)
     \<Longrightarrow> rx_exec ic r s = Some \<lparr>m_index = 0, m_length = length s - length rest, m_caps = c\<rparr>"
  unfolding rx_exec_def by (cases "length s") (simp_all add: rx_at_first)

lemma rx_test_None: "rx_exec ic r s = None \<Longrightarrow> \<not> rx_test ic r s"
  by (simp add: rx_test_def)

text \<open>The first run, step by step along a sequence.\<close>

lemma first_Seq:
  "rx_first ic a x = Some y \<Longrightarrow> rx_first ic b y = Some z \<Longrightarrow> rx_first ic (Seq a b) x = Some z"
  by (auto simp: rx_first_def split: list.splits)

lemma first_seqs_Nil: "rx_first ic (seqs []) x = Some x"
  by (cases x) (simp add: rx_first_def seqs_def)

lemma first_seqs_Cons:
  "rx_first ic r x = Some y \<Longrightarrow> rx_first ic (seqs rs) y = Some z
     \<Longrightarrow> rx_first ic (seqs (r # rs)) x = Some z"
  unfolding seqs_def by (simp add: first_Seq)

lemma first_Str:
  "matchStr ic p s = Some t \<Longrightarrow> rx_first ic (Str p) (s, c) = Some (t, c)"
  by (simp add: rx_first_def)

lemma first_Chr:
  "sameChar ic p x \<Longrightarrow> rx_first ic (Chr p) (x # xs, c) = Some (xs, c)"
  by (simp add: rx_first_def)

lemma first_Rep:
  "lo \<le> runLength P hi s
     \<Longrightarrow> rx_first ic (Rep P lo hi) (s, c) = Some (drop (runLength P hi s) s, c)"
  by (simp add: rx_first_def split: list.splits)

lemma first_Grp:
  "rx_first ic a (s, c) = Some (t, c')
     \<Longrightarrow> rx_first ic (Grp i a) (s, c) = Some (t, (i, take (length s - length t) s) # c')"
  by (auto simp: rx_first_def split: list.splits)

lemma first_Opt_take:
  "rx_first ic a x = Some y \<Longrightarrow> rx_first ic (Opt a) x = Some y"
  by (auto simp: rx_first_def split: list.splits)

lemma first_Opt_skip:
  "rx_first ic a x = None \<Longrightarrow> rx_first ic (Opt a) x = Some x"
  by (auto simp: rx_first_def split: list.splits)

lemma first_Alt_left:
  "rx_first ic a x = Some y \<Longrightarrow> rx_first ic (Alt a b) x = Some y"
  by (auto simp: rx_first_def split: list.splits)

lemma first_Alt_right:
  "rx_first ic a x = None \<Longrightarrow> rx_first ic (Alt a b) x = rx_first ic b x"
  by (auto simp: rx_first_def split: list.splits)

lemma none_Str:
  "matchStr ic p s = None \<Longrightarrow> rx_first ic (Str p) (s, c) = None"
  by (simp add: rx_first_def)

lemma none_seqs_Cons:
  "rx_first ic r x = None \<Longrightarrow> rx_first ic (seqs (r # rs)) x = None"
  by (auto simp: rx_first_def seqs_def split: list.splits)


lemma none_Rep:
  "runLength P hi s < lo \<Longrightarrow> rx_first ic (Rep P lo hi) (s, c) = None"
  by (simp add: rx_first_def)

lemma at_every_position_drop:
  "at_every_position P s \<Longrightarrow> j \<le> length s \<Longrightarrow> P (drop j s)"
proof (induction s arbitrary: j)
  case Nil
  then show ?case by simp
next
  case (Cons x xs)
  then show ?case by (cases j) simp_all
qed

lemma at_every_position_append:
  "(\<And>j. j < length xs \<Longrightarrow> P (drop j xs @ ys)) \<Longrightarrow> at_every_position P ys
     \<Longrightarrow> at_every_position P (xs @ ys)"
proof (induction xs)
  case Nil
  then show ?case by simp
next
  case (Cons x xs)
  have "P ((x # xs) @ ys)" using Cons.prems(1) [of 0] by simp
  moreover have "at_every_position P (xs @ ys)"
  proof (rule Cons.IH)
    fix j assume "j < length xs"
    then show "P (drop j xs @ ys)" using Cons.prems(1) [of "Suc j"] by simp
  qed (rule Cons.prems(2))
  ultimately show ?case by simp
qed

lemma digit_drop:
  "list_all isDigit ds \<Longrightarrow> j < length ds \<Longrightarrow> \<exists>d t. isDigit d \<and> drop j ds @ ys = d # t"
  by (metis Cons_nth_drop_Suc append_Cons list_all_length)

lemma digit_not_space: "isDigit d \<Longrightarrow> \<not> isSpace d"
  by (auto simp: isDigit_def isSpace_def)

lemma digit_lower: "isDigit d \<Longrightarrow> lowerChar d = d"
  by (auto simp: isDigit_def lowerChar_def)

lemma test1: "\<not> sameChar True CHR ''e'' CHR ''v''"
  by (simp add: sameChar_def lowerChar_def code_def)

lemma lower_digit: "isDigit (lowerChar p) \<Longrightarrow> isDigit p"
  by (auto simp: isDigit_def lowerChar_def code_def split: if_splits)

lemma digit_not_letter:
  "isDigit d \<Longrightarrow> \<not> isDigit p \<Longrightarrow> \<not> sameChar True p d"
  using lower_digit [of p] by (auto simp: sameChar_def digit_lower)

lemma every_fails:
  "matchStr True ''every'' t = None \<Longrightarrow> rx_first True (seqs (Str ''every'' # rs)) (t, c) = None"
  by (simp add: none_seqs_Cons none_Str)

lemma every_digit: "isDigit d \<Longrightarrow> matchStr True ''every'' (d # t) = None"
  by (simp add: digit_not_letter isDigit_def code_def)

lemma every_not_inside:
  assumes "list_all isDigit ds" and "at_every_position (\<lambda>t. matchStr True ''every'' t = None) tail"
  shows "at_every_position (\<lambda>t. matchStr True ''every'' t = None) (ds @ tail)"
proof (rule at_every_position_append)
  fix j assume "j < length ds"
  from digit_drop [OF assms(1) this, of tail] obtain d t
    where "isDigit d" "drop j ds @ tail = d # t" by blast
  then show "matchStr True ''every'' (drop j ds @ tail) = None" by (metis every_digit)
qed (rule assms(2))

lemma rx_exec_nowhere:
  "at_every_position (\<lambda>t. rx_first ic r (t, []) = None) s \<Longrightarrow> rx_exec ic r s = None"
  by (rule rx_exec_None) (rule at_every_position_drop)

lemma every_nowhere:
  "at_every_position (\<lambda>t. matchStr True ''every'' t = None) s
     \<Longrightarrow> at_every_position (\<lambda>t. rx_first True (seqs (Str ''every'' # rs)) (t, []) = None) s"
  by (induction s) (simp_all add: every_fails del: matchStr.simps)

lemma takeWhile_digits:
  "list_all isDigit ds \<Longrightarrow> t = [] \<or> \<not> isDigit (hd t) \<Longrightarrow> takeWhile isDigit (ds @ t) = ds"
  by (induction ds) (auto simp: takeWhile_eq_Nil_iff)

lemma takeWhile_space_digits:
  "ds \<noteq> [] \<Longrightarrow> list_all isDigit ds \<Longrightarrow> takeWhile isSpace (ds @ t) = []"
  by (cases ds) (auto simp: digit_not_space)

lemma first_None_iff: "rx_first ic r x = None \<longleftrightarrow> rx_run ic r x = []"
  by (simp add: rx_first_def split: list.splits)

lemma none_seqs_all:
  "(\<And>y. y \<in> set (rx_run ic r x) \<Longrightarrow> rx_first ic (seqs rs) y = None)
     \<Longrightarrow> rx_first ic (seqs (r # rs)) x = None"
proof -
  assume a: "\<And>y. y \<in> set (rx_run ic r x) \<Longrightarrow> rx_first ic (seqs rs) y = None"
  have "concat (map (rx_run ic (seqs rs)) (rx_run ic r x)) = []"
    using a by (auto simp: first_None_iff)
  then show ?thesis by (simp add: first_None_iff seqs_def)
qed

lemma every_word_fails:
  assumes "ds \<noteq> []" "list_all isDigit ds"
    and "\<not> isDigit p" and "\<not> sameChar True p (CHR '' '')"
  shows "rx_first True (seqs (Str ''every'' # Rep isSpace 0 None # Str (p # ps) # rs))
           (''every '' @ ds @ t, c) = None"
proof -
  from assms obtain d ds' where ds: "ds = d # ds'" and d: "isDigit d" by (cases ds) auto
  have nd: "\<not> sameChar True p d" using d assms(3) by (rule digit_not_letter)
  have sp: "isSpace CHR '' ''" by (simp add: isSpace_def code_def)
  have 1: "rx_run True (Str ''every'') (''every '' @ ds @ t, c) = [('' '' @ ds @ t, c)]"
    by (simp add: sameChar_def)
  have r: "runLength isSpace None ('' '' @ ds @ t) = Suc 0"
    using digit_not_space [OF d] sp by (simp add: runLength_def ds)
  have 2: "rx_run True (Rep isSpace 0 None) ('' '' @ ds @ t, c)
             = [(ds @ t, c), ('' '' @ ds @ t, c)]"
    unfolding rx_run.simps r by simp
  have 3: "rx_first True (seqs (Str (p # ps) # rs)) (ds @ t, c) = None"
    using nd by (intro none_seqs_Cons none_Str) (simp add: ds)
  have 4: "rx_first True (seqs (Str (p # ps) # rs)) ('' '' @ ds @ t, c) = None"
    using assms(4) by (intro none_seqs_Cons none_Str) simp
  have 5: "rx_first True (seqs (Rep isSpace 0 None # Str (p # ps) # rs)) ('' '' @ ds @ t, c) = None"
  proof (rule none_seqs_all)
    fix y assume "y \<in> set (rx_run True (Rep isSpace 0 None) ('' '' @ ds @ t, c))"
    then have "y = (ds @ t, c) \<or> y = ('' '' @ ds @ t, c)" unfolding 2 by simp
    then show "rx_first True (seqs (Str (p # ps) # rs)) y = None" using 3 4 by auto
  qed
  show ?thesis
  proof (rule none_seqs_all)
    fix y assume "y \<in> set (rx_run True (Str ''every'') (''every '' @ ds @ t, c))"
    then have "y = ('' '' @ ds @ t, c)" unfolding 1 by simp
    then show "rx_first True (seqs (Rep isSpace 0 None # Str (p # ps) # rs)) y = None"
      using 5 by simp
  qed
qed

lemma every_hours_first:
  assumes "ds \<noteq> []" "list_all isDigit ds"
  shows "rx_first True every_hours_rx (''every '' @ ds @ '' hours'', []) = Some ([], [(1, ds)])"
proof -
  have 1: "rx_first True (Str ''every'') (''every '' @ ds @ '' hours'', [])
             = Some ('' '' @ ds @ '' hours'', [])"
    by (rule first_Str) (simp add: sameChar_def)
  have sp: "isSpace CHR '' ''" by (simp add: isSpace_def code_def)
  have "runLength isSpace None ('' '' @ ds @ '' hours'') = Suc 0"
    using takeWhile_space_digits [OF assms, of "'' hours''"] sp by (simp add: runLength_def)
  with first_Rep [of 0 isSpace None "'' '' @ ds @ '' hours''" True "[]"]
  have 2: "rx_first True (Rep isSpace 0 None) ('' '' @ ds @ '' hours'', [])
             = Some (ds @ '' hours'', [])" by simp
  have "runLength isDigit None (ds @ '' hours'') = length ds"
    using takeWhile_digits [OF assms(2), of "'' hours''"]
    by (simp add: runLength_def isDigit_def code_def)
  with first_Rep [of 1 isDigit None "ds @ '' hours''" True "[]"] assms(1)
  have "rx_first True (Rep isDigit 1 None) (ds @ '' hours'', []) = Some ('' hours'', [])"
    by (cases ds) simp_all
  from first_Grp [OF this, of 1]
  have 3: "rx_first True (Grp 1 (Rep isDigit 1 None)) (ds @ '' hours'', [])
             = Some ('' hours'', [(1, ds)])" by simp
  have 4: "rx_first True (seqs [Rep isSpace 0 None, Str ''hour'', Opt (Chr CHR ''s'')])
             ('' hours'', [(1, ds)]) = Some ([], [(1, ds)])"
    by (simp add: rx_first_def seqs_def runLength_def isSpace_def code_def sameChar_def)
  show ?thesis
    unfolding every_hours_rx_def
    by (intro first_seqs_Cons [OF 1] first_seqs_Cons [OF 2] first_seqs_Cons [OF 3] 4)
qed


lemma trim_id:
  "s \<noteq> [] \<Longrightarrow> \<not> isSpace (hd s) \<Longrightarrow> \<not> isSpace (last s) \<Longrightarrow> trim s = s"
proof -
  assume a: "s \<noteq> []" "\<not> isSpace (hd s)" "\<not> isSpace (last s)"
  then have 1: "dropWhile isSpace s = s" by (cases s) simp_all
  from a have "rev s \<noteq> []" "\<not> isSpace (hd (rev s))" by (simp_all add: hd_rev)
  then have "dropWhile isSpace (rev s) = rev s" by (cases "rev s") simp_all
  with 1 show ?thesis by (simp add: trim_def)
qed

lemma cron_needs_cronChar:
  "\<not> cronChar x \<Longrightarrow> \<not> rx_test_anchored False cron_rx (x # xs)"
proof -
  assume "\<not> cronChar x"
  then have "runLength cronChar None (x # xs) < 1" by (simp add: runLength_def)
  then have "rx_first False cron_rx (x # xs, []) = None"
    unfolding cron_rx_def by (intro none_seqs_Cons none_Rep)
  then show ?thesis by (simp add: rx_test_anchored_def rx_at_first)
qed

lemma digit_last_not_space:
  "ds \<noteq> [] \<Longrightarrow> list_all isDigit ds \<Longrightarrow> \<not> isSpace (last ds)"
  by (simp add: digit_not_space list_all_iff)

lemma parseWhen_every_hours:
  assumes "ds \<noteq> []" "list_all isDigit ds"
  shows "parseWhen dp t0 (''every '' @ ds @ '' hours'') = WhenCron (''0 */'' @ ds @ '' * * *'')"
proof -
  let ?s = "''every '' @ ds @ '' hours''"
  have tr: "trim ?s = ?s"
    by (rule trim_id) (simp_all add: isSpace_def code_def)
  have cron: "\<not> rx_test_anchored False cron_rx ?s"
    using cron_needs_cronChar [of "CHR ''e''" "''very '' @ ds @ '' hours''"]
    by (simp add: cronChar_def isDigit_def code_def)
  have inside: "at_every_position (\<lambda>t. matchStr True ''every'' t = None)
                  (''very '' @ ds @ '' hours'')"
    using every_not_inside [OF assms(2), of "'' hours''"]
    by (simp add: sameChar_def lowerChar_def code_def)
  have word: "\<And>p ps rs. \<not> isDigit p \<Longrightarrow> \<not> sameChar True p (CHR '' '')
      \<Longrightarrow> rx_exec True (seqs (Str ''every'' # Rep isSpace 0 None # Str (p # ps) # rs)) ?s = None"
  proof -
    fix p ps rs assume p: "\<not> isDigit p" "\<not> sameChar True p (CHR '' '')"
    let ?r = "seqs (Str ''every'' # Rep isSpace 0 None # Str (p # ps) # rs)"
    have "rx_first True ?r (?s, []) = None"
      by (rule every_word_fails [OF assms p])
    moreover have "at_every_position (\<lambda>t. rx_first True ?r (t, []) = None)
                     (''very '' @ ds @ '' hours'')"
      by (rule every_nowhere [OF inside])
    ultimately have "at_every_position (\<lambda>t. rx_first True ?r (t, []) = None) ?s" by simp
    then show "rx_exec True ?r ?s = None" by (rule rx_exec_nowhere)
  qed
  have daily: "rx_exec True daily_rx ?s = None"
    unfolding daily_rx_def at_time_rx_def
    by (rule word) (simp_all add: isDigit_def code_def sameChar_def lowerChar_def)
  have hour: "\<not> rx_test True (every_rx ''hour'') ?s"
    unfolding every_rx_def
    by (rule rx_test_None, rule word) (simp_all add: isDigit_def code_def sameChar_def lowerChar_def)
  have morning: "\<not> rx_test True (every_rx ''morning'') ?s"
    unfolding every_rx_def
    by (rule rx_test_None, rule word) (simp_all add: isDigit_def code_def sameChar_def lowerChar_def)
  have evening: "\<not> rx_test True (every_rx ''evening'') ?s"
    unfolding every_rx_def
    by (rule rx_test_None, rule word) (simp_all add: isDigit_def code_def sameChar_def lowerChar_def)
  have hours: "rx_exec True every_hours_rx ?s
      = Some \<lparr>m_index = 0, m_length = length ?s - length ([]::string), m_caps = [(1, ds)]\<rparr>"
    by (rule rx_exec_start [OF every_hours_first [OF assms]])
  show ?thesis
    unfolding parseWhen_def tr
    using cron daily hour morning evening
    by (simp add: hours group_def del: append_Cons)
qed


lemma space_char: "isSpace CHR '' ''"
  by (simp add: isSpace_def code_def)

lemma runLength_digits:
  "list_all isDigit ds \<Longrightarrow> t = [] \<or> \<not> isDigit (hd t)
     \<Longrightarrow> runLength isDigit None (ds @ t) = length ds"
  by (simp add: runLength_def takeWhile_digits)

lemma runLength_digits2:
  "list_all isDigit ds \<Longrightarrow> length ds \<le> 2 \<Longrightarrow> runLength isDigit (Some 2) ds = length ds"
  by (simp add: runLength_def takeWhile_eq_all_conv [THEN iffD2] list_all_iff)

lemma weekday_first:
  assumes "ds \<noteq> []" "list_all isDigit ds" "length ds \<le> 2"
  shows "rx_first True weekday_rx (''every weekday at '' @ ds, []) = Some ([], [(1, ds)])"
proof -
  have 1: "rx_first True (Str ''every'') (''every weekday at '' @ ds, [])
             = Some ('' weekday at '' @ ds, [])"
    by (rule first_Str) (simp add: sameChar_def)
  have "runLength isSpace None ('' weekday at '' @ ds) = Suc 0"
    by (simp add: runLength_def isSpace_def code_def)
  with first_Rep [of 0 isSpace None "'' weekday at '' @ ds" True "[]"]
  have 2: "rx_first True (Rep isSpace 0 None) ('' weekday at '' @ ds, [])
             = Some (''weekday at '' @ ds, [])" by simp
  have 3: "rx_first True (Str ''weekday'') (''weekday at '' @ ds, []) = Some ('' at '' @ ds, [])"
    by (rule first_Str) (simp add: sameChar_def)
  have "runLength isSpace None ('' at '' @ ds) = Suc 0"
    by (simp add: runLength_def isSpace_def code_def)
  with first_Rep [of 0 isSpace None "'' at '' @ ds" True "[]"]
  have 4: "rx_first True (Rep isSpace 0 None) ('' at '' @ ds, []) = Some (''at '' @ ds, [])"
    by simp
  have a5: "rx_first True (Str ''at'') (''at '' @ ds, []) = Some ('' '' @ ds, [])"
    by (rule first_Str) (simp add: sameChar_def)
  have "runLength isSpace None ('' '' @ ds) = Suc 0"
    using takeWhile_space_digits [OF assms(1,2), of "[]"] space_char by (simp add: runLength_def)
  with first_Rep [of 0 isSpace None "'' '' @ ds" True "[]"]
  have b5: "rx_first True (Rep isSpace 0 None) ('' '' @ ds, []) = Some (ds, [])" by simp
  have 5: "rx_first True (Opt (Seq (Str ''at'') (Rep isSpace 0 None))) (''at '' @ ds, [])
             = Some (ds, [])"
    by (rule first_Opt_take, rule first_Seq [OF a5 b5])
  have "rx_first True (Rep isDigit 1 (Some 2)) (ds, []) = Some (drop (length ds) ds, [])"
    using first_Rep [of 1 isDigit "Some 2" ds True "[]"] runLength_digits2 [OF assms(2,3)] assms(1)
    by (cases ds) simp_all
  then have "rx_first True (Rep isDigit 1 (Some 2)) (ds, []) = Some ([], [])" by simp
  from first_Grp [OF this, of 1]
  have 6: "rx_first True (Grp 1 (Rep isDigit 1 (Some 2))) (ds, []) = Some ([], [(1, ds)])"
    by simp
  have 7: "rx_first True
             (seqs [Opt (Seq (Chr CHR '':'') (Grp 2 (Rep isDigit 2 (Some 2)))),
                    Rep isSpace 0 None,
                    Opt (Grp 3 (Alt (Str ''am'') (Str ''pm'')))]) ([], [(1, ds)])
             = Some ([], [(1, ds)])"
    by (simp add: rx_first_def seqs_def runLength_def)
  show ?thesis
    unfolding weekday_rx_def at_time_rx_def
    by (intro first_seqs_Cons [OF 1] first_seqs_Cons [OF 2] first_seqs_Cons [OF 3]
          first_seqs_Cons [OF 4] first_seqs_Cons [OF 5] first_seqs_Cons [OF 6] 7)
qed

lemma showNat_0: "showNat 0 = ''0''"
  by code_simp

lemma parseWhen_weekday:
  assumes "ds \<noteq> []" "list_all isDigit ds" "length ds \<le> 2"
  shows "parseWhen dp t0 (''every weekday at '' @ ds)
           = WhenCron (''0 '' @ showNat (parseInt ds) @ '' * * 1-5'')"
proof -
  let ?s = "''every weekday at '' @ ds"
  have tr: "trim ?s = ?s"
    using digit_last_not_space [OF assms(1,2)] assms(1)
    by (intro trim_id) (simp_all add: isSpace_def code_def)
  have cron: "\<not> rx_test_anchored False cron_rx ?s"
    using cron_needs_cronChar [of "CHR ''e''" "''very weekday at '' @ ds"]
    by (simp add: cronChar_def isDigit_def code_def)
  have inside: "at_every_position (\<lambda>t. matchStr True ''every'' t = None)
                  (''very weekday at '' @ ds)"
    using every_not_inside [OF assms(2), of "[]"]
    by (simp add: sameChar_def lowerChar_def code_def)
  have nowhere: "\<And>rs. rx_first True (seqs (Str ''every'' # rs)) (?s, []) = None
      \<Longrightarrow> rx_exec True (seqs (Str ''every'' # rs)) ?s = None"
  proof -
    fix rs assume "rx_first True (seqs (Str ''every'' # rs)) (?s, []) = None"
    with every_nowhere [OF inside, of rs]
    have "at_every_position (\<lambda>t. rx_first True (seqs (Str ''every'' # rs)) (t, []) = None) ?s"
      by simp
    then show "rx_exec True (seqs (Str ''every'' # rs)) ?s = None" by (rule rx_exec_nowhere)
  qed
  have daily: "rx_exec True daily_rx ?s = None"
    unfolding daily_rx_def at_time_rx_def
    by (rule nowhere)
       (simp add: first_None_iff seqs_def runLength_def isSpace_def code_def sameChar_def lowerChar_def)
  have hour: "\<not> rx_test True (every_rx ''hour'') ?s"
    unfolding every_rx_def
    by (rule rx_test_None, rule nowhere)
       (simp add: first_None_iff seqs_def runLength_def isSpace_def code_def sameChar_def lowerChar_def)
  have morning: "\<not> rx_test True (every_rx ''morning'') ?s"
    unfolding every_rx_def
    by (rule rx_test_None, rule nowhere)
       (simp add: first_None_iff seqs_def runLength_def isSpace_def code_def sameChar_def lowerChar_def)
  have evening: "\<not> rx_test True (every_rx ''evening'') ?s"
    unfolding every_rx_def
    by (rule rx_test_None, rule nowhere)
       (simp add: first_None_iff seqs_def runLength_def isSpace_def code_def sameChar_def lowerChar_def)
  have hours: "rx_exec True every_hours_rx ?s = None"
    unfolding every_hours_rx_def
    by (rule nowhere)
       (simp add: first_None_iff seqs_def runLength_def isSpace_def isDigit_def code_def sameChar_def
          lowerChar_def)
  have weekday: "rx_exec True weekday_rx ?s
      = Some \<lparr>m_index = 0, m_length = length ?s - length ([]::string), m_caps = [(1, ds)]\<rparr>"
    by (rule rx_exec_start [OF weekday_first [OF assms]])
  show ?thesis
    unfolding parseWhen_def tr
    using cron daily hour morning evening hours
    by (simp add: weekday group_def hour_of_def minute_of_def showNum_def showNat_0
          del: append_Cons)
qed


lemma in_digit: "isDigit d \<Longrightarrow> matchStr True ''in'' (d # t) = None"
  by (simp add: digit_not_letter isDigit_def code_def)

lemma relative_first:
  assumes "ds \<noteq> []" "list_all isDigit ds" and "tail = [] \<or> \<not> isDigit (hd tail)"
    and rest: "rx_first True (seqs [Rep isSpace 0 None, unit_rx, Opt (Chr CHR ''s'')])
                 (tail, [(1, ds)]) = Some z"
  shows "rx_first True relative_rx (''in '' @ ds @ tail, []) = Some z"
proof -
  have 1: "rx_first True (Str ''in'') (''in '' @ ds @ tail, []) = Some ('' '' @ ds @ tail, [])"
    by (rule first_Str) (simp add: sameChar_def)
  have "runLength isSpace None ('' '' @ ds @ tail) = Suc 0"
    using takeWhile_space_digits [OF assms(1,2), of tail] space_char by (simp add: runLength_def)
  with first_Rep [of 1 isSpace None "'' '' @ ds @ tail" True "[]"]
  have 2: "rx_first True (Rep isSpace 1 None) ('' '' @ ds @ tail, []) = Some (ds @ tail, [])"
    by simp
  have "rx_first True (Rep isDigit 1 None) (ds @ tail, []) = Some (tail, [])"
    using first_Rep [of 1 isDigit None "ds @ tail" True "[]"]
      runLength_digits [OF assms(2,3)] assms(1)
    by (cases ds) simp_all
  from first_Grp [OF this, of 1]
  have 3: "rx_first True (Grp 1 (Rep isDigit 1 None)) (ds @ tail, []) = Some (tail, [(1, ds)])"
    by simp
  show ?thesis
    unfolding relative_rx_def
    using rest
    by (intro first_seqs_Cons [OF 1] first_seqs_Cons [OF 2] first_seqs_Cons [OF 3])
qed

lemma parseWhen_relative:
  assumes ds: "ds \<noteq> []" "list_all isDigit ds"
    and tail: "tail \<noteq> []" "\<not> isDigit (hd tail)" "\<not> isSpace (last tail)"
    and inside: "at_every_position (\<lambda>t. matchStr True ''every'' t = None) tail"
    and rest: "rx_first True (seqs [Rep isSpace 0 None, unit_rx, Opt (Chr CHR ''s'')])
                 (tail, [(1, ds)]) = Some ([], [(2, u), (1, ds)])"
    and k: "map_of mult (toLowerCase u) = Some k"
  shows "parseWhen dp t0 (''in '' @ ds @ tail) = WhenDate (newDate (t0 + int (parseInt ds) * k))"
proof -
  let ?s = "''in '' @ ds @ tail"
  have tr: "trim ?s = ?s"
    using tail by (intro trim_id) (simp_all add: isSpace_def code_def)
  have cron: "\<not> rx_test_anchored False cron_rx ?s"
    using cron_needs_cronChar [of "CHR ''i''" "''n '' @ ds @ tail"]
    by (simp add: cronChar_def isDigit_def code_def)
  have everywhere: "at_every_position (\<lambda>t. matchStr True ''every'' t = None) ?s"
    using every_not_inside [OF ds(2) inside]
    by (simp add: sameChar_def lowerChar_def code_def)
  have nowhere: "\<And>rs. rx_exec True (seqs (Str ''every'' # rs)) ?s = None"
    by (rule rx_exec_nowhere, rule every_nowhere, rule everywhere)
  have daily: "rx_exec True daily_rx ?s = None"
    unfolding daily_rx_def at_time_rx_def by (rule nowhere)
  have weekday: "rx_exec True weekday_rx ?s = None"
    unfolding weekday_rx_def at_time_rx_def by (rule nowhere)
  have hours: "rx_exec True every_hours_rx ?s = None"
    unfolding every_hours_rx_def by (rule nowhere)
  have word: "\<And>w. \<not> rx_test True (every_rx w) ?s"
    unfolding every_rx_def by (rule rx_test_None, rule nowhere)
  have relative: "rx_exec True relative_rx ?s
      = Some \<lparr>m_index = 0, m_length = length ?s - length ([]::string),
              m_caps = [(2, u), (1, ds)]\<rparr>"
    by (rule rx_exec_start, rule relative_first [OF ds _ rest]) (use tail in simp)
  show ?thesis
    unfolding parseWhen_def tr
    using cron daily word weekday hours k
    by (simp add: relative group_def del: append_Cons)
qed

lemma unit_tails:
  "rx_first True (seqs [Rep isSpace 0 None, unit_rx, Opt (Chr CHR ''s'')]) ('' seconds'', c)
     = Some ([], (2, ''second'') # c)"
  "rx_first True (seqs [Rep isSpace 0 None, unit_rx, Opt (Chr CHR ''s'')]) ('' minutes'', c)
     = Some ([], (2, ''minute'') # c)"
  "rx_first True (seqs [Rep isSpace 0 None, unit_rx, Opt (Chr CHR ''s'')]) ('' hours'', c)
     = Some ([], (2, ''hour'') # c)"
  "rx_first True (seqs [Rep isSpace 0 None, unit_rx, Opt (Chr CHR ''s'')]) ('' days'', c)
     = Some ([], (2, ''day'') # c)"
  by (simp_all add: rx_first_def seqs_def alts_def unit_rx_def runLength_def isSpace_def code_def
        sameChar_def lowerChar_def)

lemma parseWhen_in_units:
  assumes ds: "ds \<noteq> []" "list_all isDigit ds" and u: "(u, k) \<in> set mult"
  shows "parseWhen dp t0 (''in '' @ ds @ '' '' @ u @ ''s'')
           = WhenDate (newDate (t0 + int (parseInt ds) * k))"
proof -
  from u consider "u = ''second''" "k = 1000" | "u = ''minute''" "k = 60000"
    | "u = ''hour''" "k = 3600000" | "u = ''day''" "k = 86400000"
    by (auto simp: mult_def)
  then show ?thesis
  proof cases
    case 1
    have "parseWhen dp t0 (''in '' @ ds @ '' seconds'') = WhenDate (newDate (t0 + int (parseInt ds) * 1000))"
      by (rule parseWhen_relative [OF ds _ _ _ _ unit_tails(1)])
         (simp_all add: isDigit_def isSpace_def code_def sameChar_def lowerChar_def mult_def
            toLowerCase_def)
    with 1 show ?thesis by simp
  next
    case 2
    have "parseWhen dp t0 (''in '' @ ds @ '' minutes'') = WhenDate (newDate (t0 + int (parseInt ds) * 60000))"
      by (rule parseWhen_relative [OF ds _ _ _ _ unit_tails(2)])
         (simp_all add: isDigit_def isSpace_def code_def sameChar_def lowerChar_def mult_def
            toLowerCase_def)
    with 2 show ?thesis by simp
  next
    case 3
    have "parseWhen dp t0 (''in '' @ ds @ '' hours'') = WhenDate (newDate (t0 + int (parseInt ds) * 3600000))"
      by (rule parseWhen_relative [OF ds _ _ _ _ unit_tails(3)])
         (simp_all add: isDigit_def isSpace_def code_def sameChar_def lowerChar_def mult_def
            toLowerCase_def)
    with 3 show ?thesis by simp
  next
    case 4
    have "parseWhen dp t0 (''in '' @ ds @ '' days'') = WhenDate (newDate (t0 + int (parseInt ds) * 86400000))"
      by (rule parseWhen_relative [OF ds _ _ _ _ unit_tails(4)])
         (simp_all add: isDigit_def isSpace_def code_def sameChar_def lowerChar_def mult_def
            toLowerCase_def)
    with 4 show ?thesis by simp
  qed
qed


lemma parseWhen_cron:
  "rx_test_anchored False cron_rx (trim w) \<Longrightarrow> parseWhen dp t0 w = WhenCron (trim w)"
  by (simp add: parseWhen_def)

lemma parseWhen_daily_9am: "parseWhen dp t0 ''every day at 9am'' = WhenCron ''0 9 * * *''"
  by code_simp

lemma parseWhen_every_hour: "parseWhen dp t0 ''every hour'' = WhenCron ''0 * * * *''"
  by code_simp

lemma parseWhen_fallback:
  "\<not> recognized w \<Longrightarrow> dp w = None \<Longrightarrow> parseWhen dp t0 w = WhenDate (newDate (t0 + 60000))"
  by (simp add: parseWhen_def recognized_def)

text \<open>
  C5, as amended.  \<open>parseWhen\<close> is a total function of its text: nothing in it throws.
  A text that, trimmed, is a 5-field cron expression gives that expression, trimmed;
  \<open>every day at 9am\<close> gives \<open>0 9 * * *\<close> and \<open>every hour\<close> gives \<open>0 * * * *\<close>;
  \<open>every N hours\<close> gives \<open>0 */N * * *\<close> for every run of digits \<open>N\<close>;
  \<open>every weekday at H\<close>, \<open>H\<close> of one or two digits, gives the cron \<open>0 H * * 1-5\<close>;
  \<open>in N seconds|minutes|hours|days\<close> read at a time \<open>T\<close> not before the epoch gives the
  instant \<open>T + N * unit\<close> whenever that is a time a Date can hold (at most 8.64e15 ms);
  and a text of none of the forms that the platform cannot read as a date gives
  \<open>now + 60 s\<close>.
\<close>

theorem parseWhen_forms:
  "(rx_test_anchored False cron_rx (trim w) \<longrightarrow> parseWhen dp t0 w = WhenCron (trim w))
   \<and> parseWhen dp t0 ''every day at 9am'' = WhenCron ''0 9 * * *''
   \<and> parseWhen dp t0 ''every hour'' = WhenCron ''0 * * * *''
   \<and> (n \<noteq> [] \<and> list_all isDigit n
        \<longrightarrow> parseWhen dp t0 (''every '' @ n @ '' hours'') = WhenCron (''0 */'' @ n @ '' * * *''))
   \<and> (h \<noteq> [] \<and> list_all isDigit h \<and> length h \<le> 2
        \<longrightarrow> parseWhen dp t0 (''every weekday at '' @ h)
            = WhenCron (''0 '' @ showNat (parseInt h) @ '' * * 1-5''))
   \<and> (n \<noteq> [] \<and> list_all isDigit n \<and> (u, k) \<in> set mult
        \<and> 0 \<le> t0 \<and> t0 + int (parseInt n) * k \<le> 8640000000000000
        \<longrightarrow> parseWhen dp t0 (''in '' @ n @ '' '' @ u @ ''s'')
            = WhenDate (Instant (t0 + int (parseInt n) * k)))
   \<and> (\<not> recognized w \<and> dp w = None \<and> 0 \<le> t0 \<and> t0 + 60000 \<le> 8640000000000000
        \<longrightarrow> parseWhen dp t0 w = WhenDate (Instant (t0 + 60000)))"
proof -
  have pos: "(u, k) \<in> set mult \<Longrightarrow> 0 \<le> int (parseInt n) * k"
    by (auto simp: mult_def)
  have a: "(u, k) \<in> set mult \<Longrightarrow> 0 \<le> t0 \<Longrightarrow> t0 + int (parseInt n) * k \<le> 8640000000000000
             \<Longrightarrow> \<bar>t0 + int (parseInt n) * k\<bar> \<le> 8640000000000000"
    using pos by linarith
  have b: "0 \<le> t0 \<Longrightarrow> t0 + 60000 \<le> 8640000000000000 \<Longrightarrow> \<bar>t0 + 60000\<bar> \<le> 8640000000000000"
    by linarith
  show ?thesis
    using parseWhen_cron [of w dp t0] parseWhen_daily_9am [of dp t0] parseWhen_every_hour [of dp t0]
      parseWhen_every_hours [of n dp t0] parseWhen_weekday [of h dp t0]
      parseWhen_in_units [of n u k dp t0] parseWhen_fallback [of w dp t0] a b
    by (simp add: newDate_def)
qed


theorem parseWhen_forms_witness:
  "parseWhen (\<lambda>s. None) 1000 '' 0 9 * * 1-5 '' = WhenCron ''0 9 * * 1-5''
   \<and> parseWhen (\<lambda>s. None) 1000 ''every 5 hours'' = WhenCron ''0 */5 * * *''
   \<and> parseWhen (\<lambda>s. None) 1000 ''every weekday at 9'' = WhenCron ''0 9 * * 1-5''
   \<and> parseWhen (\<lambda>s. None) 1000 ''in 5 minutes'' = WhenDate (Instant 301000)
   \<and> parseWhen (\<lambda>s. None) 1000 ''gibberish'' = WhenDate (Instant 61000)"
proof -
  have c: "rx_test_anchored False cron_rx (trim '' 0 9 * * 1-5 '')" by code_simp
  have t: "trim '' 0 9 * * 1-5 '' = ''0 9 * * 1-5''" by code_simp
  have d5: "''5'' \<noteq> [] \<and> list_all isDigit ''5''" by code_simp
  have d9: "''9'' \<noteq> [] \<and> list_all isDigit ''9'' \<and> length ''9'' \<le> 2" by code_simp
  have s9: "showNat (parseInt ''9'') = ''9''" by code_simp
  have p5: "parseInt ''5'' = 5" by code_simp
  have u: "(''minute'', 60000) \<in> set mult" by (simp add: mult_def)
  have g: "\<not> recognized ''gibberish''" by code_simp
  from parseWhen_forms [of "'' 0 9 * * 1-5 ''" "\<lambda>s. None" 1000 "''5''" "''9''" "''minute''" 60000]
    parseWhen_forms [of "''gibberish''" "\<lambda>s. None" 1000 "''5''" "''9''" "''minute''" 60000]
    c t d5 d9 s9 p5 u g
  show ?thesis by simp
qed

text \<open>
  A cron expression with blanks around it is not returned as it is but trimmed, and a
  number of days that leads beyond the range of a Date gives an invalid Date.
\<close>

theorem parseWhen_counterexample:
  "parseWhen (\<lambda>s. None) 1000 '' 0 9 * * * '' = WhenCron ''0 9 * * *''
   \<and> parseWhen (\<lambda>s. None) 1000 '' 0 9 * * * '' \<noteq> WhenCron '' 0 9 * * * ''
   \<and> parseWhen (\<lambda>s. None) 1000 ''in 100000000 days'' = WhenDate InvalidDate
   \<and> parseWhen (\<lambda>s. None) 1000 ''in 100000000 days''
       \<noteq> WhenDate (Instant (1000 + 100000000 * 86400000))"
proof -
  have 1: "parseWhen (\<lambda>s. None) 1000 '' 0 9 * * * '' = WhenCron ''0 9 * * *''"
    by code_simp
  have n: "parseInt ''100000000'' = 100000000"
    by (simp add: parseInt_def code_def)
  have d: "''100000000'' \<noteq> [] \<and> list_all isDigit ''100000000''"
    by (simp add: isDigit_def code_def)
  have u: "(''day'', 86400000) \<in> set mult" by (simp add: mult_def)
  have 2: "parseWhen (\<lambda>s. None) 1000 ''in 100000000 days'' = WhenDate InvalidDate"
    using parseWhen_in_units [of "''100000000''" "''day''" 86400000 "\<lambda>s. None" 1000] d u
    by (simp add: n newDate_def)
  show ?thesis by (simp add: 1 2)
qed

end
